theory Spec2Isabelle
  imports
    Main
    "HOL-Library.AList"
    "HOL-Library.Sublist"
    "HOL-Library.Multiset"
    "HOL-Library.Char_ord"
    "HOL-Library.List_Lexorder"
begin

section \<open>JavaScript values\<close>

text \<open>
  The gateway stores and forwards decoded JSON payloads without looking inside them.
  The only thing the handler ever asks of a payload is its truthiness
  (\<^verbatim>\<open>if (cached) ...\<close>), so the values are modelled as a JSON tree together with the
  JavaScript truthiness test. Numbers are integers here; \<open>JNull\<close> also stands for
  the \<^verbatim>\<open>null\<close> that \<^verbatim>\<open>get\<close> returns for an absent entry.
\<close>

datatype json =
    JNull
  | JBool bool
  | JNum int
  | JStr string
  | JArr "json list"
  | JObj "(string \<times> json) list"

fun truthy :: "json \<Rightarrow> bool" where
  "truthy JNull = False"
| "truthy (JBool b) = b"
| "truthy (JNum n) = (n \<noteq> 0)"
| "truthy (JStr s) = (s \<noteq> [])"
| "truthy (JArr xs) = True"
| "truthy (JObj kvs) = True"

section \<open>The in-memory cache\<close>

text \<open>
  \<^verbatim>\<open>const CACHE = new Map<string, { data: any; until: number }>()\<close>.
  A JavaScript \<^verbatim>\<open>Map\<close> iterates in insertion order, \<^verbatim>\<open>set\<close> on a key that is present
  keeps the key's position, and \<^verbatim>\<open>set\<close> on a new key appends it. That is an association
  list with \<^const>\<open>AList.update\<close> for \<^verbatim>\<open>set\<close>, \<^const>\<open>AList.delete\<close> for \<^verbatim>\<open>delete\<close>,
  \<^const>\<open>map_of\<close> for \<^verbatim>\<open>get\<close> and \<^const>\<open>length\<close> for \<^verbatim>\<open>size\<close>; the first pair of the
  list is what \<^verbatim>\<open>CACHE.keys().next().value\<close> names. Times are milliseconds
  (\<^verbatim>\<open>Date.now()\<close>), passed in as \<open>now\<close>. Both source files define the same
  \<^verbatim>\<open>put\<close> and \<^verbatim>\<open>get\<close>.
\<close>

record entry =
  data :: json
  until :: int

type_synonym cache = "(string \<times> entry) list"

definition CACHE_MAX :: nat where
  "CACHE_MAX = 5000"

definition put :: "string \<Rightarrow> json \<Rightarrow> int \<Rightarrow> int \<Rightarrow> cache \<Rightarrow> cache" where
  "put k v ttlSec now c =
     (let c1 = AList.update k \<lparr>data = v, until = now + ttlSec * 1000\<rparr> c
      in if length c1 > CACHE_MAX
         then (case c1 of [] \<Rightarrow> c1 | (firstKey, _) # _ \<Rightarrow> AList.delete firstKey c1)
         else c1)"

definition get :: "string \<Rightarrow> int \<Rightarrow> cache \<Rightarrow> json \<times> cache" where
  "get k now c =
     (case map_of c k of
        None \<Rightarrow> (JNull, c)
      | Some e \<Rightarrow> if now > until e then (JNull, AList.delete k c) else (data e, c))"

text \<open>
  The state invariant of the cache: keys are unique (it is a map) and there are at most
  \<^const>\<open>CACHE_MAX\<close> of them. It holds of the empty cache the process starts with and is
  kept by \<^const>\<open>put\<close> and \<^const>\<open>get\<close>.
\<close>

definition cache_inv :: "cache \<Rightarrow> bool" where
  "cache_inv c \<longleftrightarrow> distinct (map fst c) \<and> length c \<le> CACHE_MAX"

section \<open>Strings, URLs and the field mask\<close>

text \<open>
  A JavaScript string is modelled by the bytes of its UTF-8 encoding. JavaScript strings
  may hold an unpaired surrogate (a JSON body can carry \<^verbatim>\<open>"\ud800"\<close>); it is modelled by
  the three bytes that the same encoding scheme gives a surrogate code point,
  \<^verbatim>\<open>ED A0..BF 80..BF\<close>, which never occur in the encoding of a well-formed string.
  \<^verbatim>\<open>Array.prototype.join\<close> on a list of strings:
\<close>

fun join :: "string \<Rightarrow> string list \<Rightarrow> string" where
  "join sep [] = []"
| "join sep [x] = x"
| "join sep (x # y # ys) = x @ sep @ join sep (y # ys)"

text \<open>
  \<^verbatim>\<open>encodeURIComponent\<close> leaves letters, digits and \<^verbatim>\<open>- _ . ! ~ * ' ( )\<close> alone and writes
  every other byte as \<^verbatim>\<open>%XX\<close> with upper-case hexadecimal digits. On a string with an
  unpaired surrogate it throws a \<^verbatim>\<open>URIError\<close>, whose message is \<^verbatim>\<open>URI malformed\<close>.
\<close>

definition is_alnum :: "char \<Rightarrow> bool" where
  "is_alnum c =
     (let n = (of_char c :: nat)
      in (48 \<le> n \<and> n \<le> 57) \<or> (65 \<le> n \<and> n \<le> 90) \<or> (97 \<le> n \<and> n \<le> 122))"

definition hex_digit :: "nat \<Rightarrow> char" where
  "hex_digit n = (if n < 10 then char_of (48 + n) else char_of (55 + n))"

definition percent :: "char \<Rightarrow> string" where
  "percent c =
     [CHR ''%'', hex_digit ((of_char c :: nat) div 16), hex_digit ((of_char c :: nat) mod 16)]"

definition uri_unreserved :: "char \<Rightarrow> bool" where
  "uri_unreserved c \<longleftrightarrow> is_alnum c \<or> c \<in> set (''-_.!~*()'' @ [CHR 0x27])"

definition percent_encode :: "string \<Rightarrow> string" where
  "percent_encode s = concat (map (\<lambda>c. if uri_unreserved c then [c] else percent c) s)"

definition surrogate_at :: "char \<Rightarrow> char \<Rightarrow> bool" where
  "surrogate_at a b \<longleftrightarrow>
     (of_char a :: nat) = 237 \<and> 160 \<le> (of_char b :: nat) \<and> (of_char b :: nat) \<le> 191"

fun has_lone_surrogate :: "string \<Rightarrow> bool" where
  "has_lone_surrogate (a # b # s) = (surrogate_at a b \<or> has_lone_surrogate (b # s))"
| "has_lone_surrogate s = False"

definition encodeURIComponent :: "string \<Rightarrow> string + string" where
  "encodeURIComponent s =
     (if has_lone_surrogate s then Inl ''URI malformed'' else Inr (percent_encode s))"

definition uri_ok :: "string \<Rightarrow> bool" where
  "uri_ok s \<longleftrightarrow> \<not> has_lone_surrogate s"

text \<open>
  \<^verbatim>\<open>URLSearchParams.prototype.toString\<close> serialises as
  \<^verbatim>\<open>application/x-www-form-urlencoded\<close>: letters, digits and \<^verbatim>\<open>* - . _\<close> stay, a space
  becomes \<^verbatim>\<open>+\<close>, every other byte is percent-encoded; pairs are joined with \<^verbatim>\<open>&\<close>.
  \<^verbatim>\<open>URLSearchParams\<close> does not throw on an unpaired surrogate: it replaces it by
  U+FFFD (\<^verbatim>\<open>EF BF BD\<close>) first.
\<close>

fun scrub_surrogates :: "string \<Rightarrow> string" where
  "scrub_surrogates (a # b # c # s) =
     (if surrogate_at a b then CHR 0xEF # CHR 0xBF # CHR 0xBD # scrub_surrogates s
      else a # scrub_surrogates (b # c # s))"
| "scrub_surrogates s = s"

definition form_encode :: "string \<Rightarrow> string" where
  "form_encode s =
     concat (map (\<lambda>c. if is_alnum c \<or> c \<in> set ''*-._'' then [c]
                        else if c = CHR '' '' then ''+'' else percent c) (scrub_surrogates s))"

definition url_search_params :: "(string \<times> string) list \<Rightarrow> string" where
  "url_search_params ps = join ''&'' (map (\<lambda>(n, v). form_encode n @ ''='' @ form_encode v) ps)"

text \<open>
  The test \<^verbatim>\<open>/Error expanding 'fields' parameter/i.test(bodyText)\<close>: the body contains the
  phrase, letters compared without regard to (ASCII) case.
\<close>

definition ascii_lower :: "char \<Rightarrow> char" where
  "ascii_lower c =
     (let n = (of_char c :: nat) in if 65 \<le> n \<and> n \<le> 90 then char_of (n + 32) else c)"

definition FIELD_ERROR_PHRASE :: string where
  "FIELD_ERROR_PHRASE = ''error expanding 'fields' parameter''"

definition field_mask_error :: "string \<Rightarrow> bool" where
  "field_mask_error bodyText \<longleftrightarrow> sublist FIELD_ERROR_PHRASE (map ascii_lower bodyText)"

definition GOOGLE_PLACES_BASE :: string where
  "GOOGLE_PLACES_BASE = ''https://places.googleapis.com/v1''"

definition ALLOWED :: "string set" where
  "ALLOWED = {''searchText'', ''nearbySearch'', ''details'', ''autocomplete'',
              ''batchDetails'', ''health''}"

text \<open>\<^verbatim>\<open>id?.startsWith('places/') ? id.slice(7) : id\<close>\<close>

definition normalizeId :: "string \<Rightarrow> string" where
  "normalizeId ident = (if prefix ''places/'' ident then drop 7 ident else ident)"

definition DEFAULT_FIELDS :: "string list" where
  "DEFAULT_FIELDS =
     [''id'', ''displayName'', ''formattedAddress'', ''rating'', ''userRatingCount'',
      ''reviews.rating'', ''reviews.text'', ''reviews.publishTime'',
      ''reviews.relativePublishTimeDescription'',
      ''reviews.authorAttribution.displayName'', ''reviews.authorAttribution.uri'',
      ''reviews.authorAttribution.photoUri'']"

text \<open>
  The cache key of a details lookup,
  \<^verbatim>\<open>`details:${rawId}:${fields.slice().sort().join(',')}`\<close>. The default comparison of
  \<^verbatim>\<open>sort\<close> orders strings by their code units, here the lexicographic order on bytes.
\<close>

definition cacheKey :: "string \<Rightarrow> string list \<Rightarrow> string" where
  "cacheKey rawId flds = ''details:'' @ rawId @ '':'' @ join '','' (sort flds)"

section \<open>Requests, responses and the world outside\<close>

text \<open>
  An outbound call as \<^verbatim>\<open>fetch\<close> receives it. \<open>oc_body\<close> is the value handed to
  \<^verbatim>\<open>JSON.stringify\<close> for the request body, if there is one.
\<close>

record outcall =
  oc_method :: string
  oc_url :: string
  oc_headers :: "(string \<times> string) list"
  oc_body :: "json option"

text \<open>
  What the provider answers: the status, the raw body that \<^verbatim>\<open>r.text()\<close> yields, and
  what \<^verbatim>\<open>r.json()\<close> yields: the decoded payload, or the message of the error it throws
  when the body is not JSON. \<^verbatim>\<open>fetch\<close> itself may reject (\<open>Rejects\<close>, with the message of
  the error). Reading the body as text is taken to succeed.
\<close>

record upstream_response =
  r_status :: nat
  r_text :: string
  r_json :: "string + json"

datatype fetch_result = Rejects string | Resolves upstream_response

definition r_ok :: "upstream_response \<Rightarrow> bool" where
  "r_ok r \<longleftrightarrow> 200 \<le> r_status r \<and> r_status r \<le> 299"

text \<open>
  The process environment and the provider. The provider's answer to a call may depend
  on the calls issued before it (\<open>fetch env log call\<close>); \<open>elapsed\<close> is the time in
  milliseconds by which the clock has advanced when the answer is handled; \<open>arrival\<close>
  lists the positions of a batch in the order in which their first answers arrive.
\<close>

record env =
  GATEWAY_TOKEN :: "string option"
  GOOGLE_PLACES_API_KEY :: "string option"
  fetch :: "outcall list \<Rightarrow> outcall \<Rightarrow> fetch_result"
  elapsed :: "outcall list \<Rightarrow> outcall \<Rightarrow> nat"
  arrival :: "nat list"

text \<open>
  The state that outlives a request: the cache, the log of outbound calls issued so far
  (oldest first) and the clock that \<^verbatim>\<open>Date.now()\<close> reads.
\<close>

record world =
  CACHE :: cache
  calls :: "outcall list"
  clock :: int

text \<open>
  The members of the request body that the handler destructures, with the types its
  annotations and uses give them; \<open>None\<close> is \<^verbatim>\<open>undefined\<close>. \<^verbatim>\<open>placeIds\<close> may be something
  other than an array, which the handler tests for. Numbers that are only forwarded
  stay JSON values.
\<close>

datatype placeIds_member = NotAnArray | IdArray "string list"

record body =
  b_action :: "string option"
  b_placeIds :: "placeIds_member option"
  b_placeId :: "string option"
  b_fields :: "string list option"
  b_textQuery :: "string option"
  b_regionCode :: "string option"
  b_pageSize :: "json option"
  b_languageCode :: "string option"
  b_includedType :: "string option"
  b_lat :: "json option"
  b_lng :: "json option"
  b_radius :: "json option"
  b_maxResultCount :: "json option"
  b_input :: "string option"
  b_types :: "string option"

definition empty_body :: body where
  "empty_body =
     \<lparr>b_action = None, b_placeIds = None, b_placeId = None, b_fields = None,
      b_textQuery = None, b_regionCode = None, b_pageSize = None, b_languageCode = None,
      b_includedType = None, b_lat = None, b_lng = None, b_radius = None,
      b_maxResultCount = None, b_input = None, b_types = None\<rparr>"

record request =
  req_method :: string
  req_query_action :: "string option"
  req_gateway_key :: "string option"
  req_body :: "body option"

datatype item_result =
    ItemOk string json bool
  | ItemError string nat string

datatype res_payload =
    NoContent
  | ErrorCode string
  | GoogleError string
  | GatewayException string
  | HealthOk nat
  | BatchResults "item_result list"
  | DetailsData json bool
  | SearchData json

record http_res =
  res_headers :: "(string \<times> string) list"
  res_status :: nat
  res_payload :: res_payload

definition CORS_HEADERS :: "(string \<times> string) list" where
  "CORS_HEADERS =
     [(''Access-Control-Allow-Origin'', ''*''),
      (''Access-Control-Allow-Headers'', ''Content-Type, x-gateway-key''),
      (''Access-Control-Allow-Methods'', ''POST, GET, OPTIONS'')]"

definition respond :: "nat \<Rightarrow> res_payload \<Rightarrow> http_res" where
  "respond st p = \<lparr>res_headers = CORS_HEADERS, res_status = st, res_payload = p\<rparr>"

text \<open>JavaScript truthiness of an optional string: present and not empty.\<close>

definition present :: "string option \<Rightarrow> bool" where
  "present s \<longleftrightarrow> (case s of None \<Rightarrow> False | Some t \<Rightarrow> t \<noteq> [])"

text \<open>\<^verbatim>\<open>req.body || {}\<close>\<close>

definition body_or_empty :: "request \<Rightarrow> body" where
  "body_or_empty req = (case req_body req of None \<Rightarrow> empty_body | Some b \<Rightarrow> b)"

text \<open>\<^verbatim>\<open>(req.query.action || req.body?.action || '').toString()\<close>\<close>

definition action_of :: "request \<Rightarrow> string" where
  "action_of req =
     (if present (req_query_action req) then the (req_query_action req)
      else if present (b_action (body_or_empty req)) then the (b_action (body_or_empty req))
      else [])"

text \<open>
  The gateway check fails when
  \<^verbatim>\<open>!process.env.GATEWAY_TOKEN || gatewayKey !== process.env.GATEWAY_TOKEN\<close>.
\<close>

definition unauthorized :: "env \<Rightarrow> request \<Rightarrow> bool" where
  "unauthorized env req \<longleftrightarrow>
     \<not> present (GATEWAY_TOKEN env) \<or> req_gateway_key req \<noteq> GATEWAY_TOKEN env"

text \<open>
  \<^verbatim>\<open>await fetch(url, ...)\<close>: the call is appended to the log, the provider answers, and
  the clock has moved on when the handler resumes.
\<close>

definition do_fetch :: "env \<Rightarrow> outcall \<Rightarrow> world \<Rightarrow> fetch_result \<times> world" where
  "do_fetch env oc w =
     (fetch env (calls w) oc,
      w\<lparr>calls := calls w @ [oc], clock := clock w + int (elapsed env (calls w) oc)\<rparr>)"

text \<open>
  The GET of a details lookup for an identifier and a field mask, as the handler builds
  it: the URL is put together first, the identifier encoded before the mask, and either
  encoding may throw.
\<close>

definition build_details_call :: "string \<Rightarrow> string \<Rightarrow> string list \<Rightarrow> string + outcall" where
  "build_details_call apiKey rawId flds =
     (case encodeURIComponent rawId of
        Inl msg \<Rightarrow> Inl msg
      | Inr i \<Rightarrow>
          (case encodeURIComponent (join '','' flds) of
             Inl msg \<Rightarrow> Inl msg
           | Inr f \<Rightarrow>
               Inr \<lparr>oc_method = ''GET'',
                    oc_url = GOOGLE_PLACES_BASE @ ''/places/'' @ i @ ''?fields='' @ f,
                    oc_headers = [(''X-Goog-Api-Key'', apiKey),
                                  (''X-Goog-FieldMask'', join '','' flds)],
                    oc_body = None\<rparr>))"

text \<open>
  The call that is built when nothing is thrown (\<open>build_details_call_ok\<close> below); the
  theorems name the calls of a lookup by it.
\<close>

definition details_call :: "string \<Rightarrow> string \<Rightarrow> string list \<Rightarrow> outcall" where
  "details_call apiKey rawId flds =
     \<lparr>oc_method = ''GET'',
      oc_url = GOOGLE_PLACES_BASE @ ''/places/'' @ percent_encode rawId
               @ ''?fields='' @ percent_encode (join '','' flds),
      oc_headers = [(''X-Goog-Api-Key'', apiKey), (''X-Goog-FieldMask'', join '','' flds)],
      oc_body = None\<rparr>"

section \<open>The handler of \<^verbatim>\<open>api/places.ts\<close>\<close>

subsection \<open>Single details lookup\<close>

text \<open>
  The tail of the details branch: a response that is still not ok is passed through
  with its status and body; otherwise the payload is decoded, cached for 3600 seconds
  under the key computed at the start, and returned. An error thrown by \<^verbatim>\<open>r.json()\<close>
  reaches the \<^verbatim>\<open>catch\<close> of the handler.
\<close>

definition details_finish :: "string \<Rightarrow> upstream_response \<Rightarrow> world \<Rightarrow> http_res \<times> world" where
  "details_finish ck r w =
     (if \<not> r_ok r then (respond (r_status r) (GoogleError (r_text r)), w)
      else case r_json r of
             Inl msg \<Rightarrow> (respond 500 (GatewayException msg), w)
           | Inr j \<Rightarrow> (respond 200 (DetailsData j False),
                       w\<lparr>CACHE := put ck j 3600 (clock w) (CACHE w)\<rparr>))"

definition details :: "env \<Rightarrow> string \<Rightarrow> body \<Rightarrow> world \<Rightarrow> http_res \<times> world" where
  "details env apiKey b w =
     (let flds = (case b_fields b of None \<Rightarrow> DEFAULT_FIELDS | Some f \<Rightarrow> f)
      in if \<not> present (b_placeId b) then (respond 400 (ErrorCode ''placeId_required''), w)
         else
           let rawId = normalizeId (the (b_placeId b));
               ck = cacheKey rawId flds;
               (cached, c1) = get ck (clock w) (CACHE w);
               w1 = w\<lparr>CACHE := c1\<rparr>
           in if truthy cached then (respond 200 (DetailsData cached True), w1)
              else
                case build_details_call apiKey rawId flds of
                  Inl msg \<Rightarrow> (respond 500 (GatewayException msg), w1)
                | Inr oc \<Rightarrow>
                    let (r, w2) = do_fetch env oc w1
                    in case r of
                         Rejects msg \<Rightarrow> (respond 500 (GatewayException msg), w2)
                       | Resolves r1 \<Rightarrow>
                           if \<not> r_ok r1 then
                             if r_status r1 = 400 \<and> field_mask_error (r_text r1) then
                               (case build_details_call apiKey rawId DEFAULT_FIELDS of
                                  Inl msg \<Rightarrow> (respond 500 (GatewayException msg), w2)
                                | Inr oc' \<Rightarrow>
                                    let (r', w3) = do_fetch env oc' w2
                                    in case r' of
                                         Rejects msg \<Rightarrow> (respond 500 (GatewayException msg), w3)
                                       | Resolves r2 \<Rightarrow> details_finish ck r2 w3)
                             else (respond (r_status r1) (GoogleError (r_text r1)), w2)
                           else details_finish ck r1 w2)"

subsection \<open>Batch details lookup\<close>

text \<open>
  \<^verbatim>\<open>Promise.all(placeIds.map(async (pid) => ...))\<close> starts every item in list order and
  each runs up to its first \<^verbatim>\<open>await\<close>: it normalises the identifier, reads the cache
  and, on a miss, builds and issues its GET. Nothing else happens before all items have
  done that. An item is then settled with a result, pending with the answer that will
  arrive, or has thrown (its URL could not be built).
\<close>

datatype item_state =
    Settled item_result
  | Pending string string fetch_result nat
  | Threw string

definition batch_item_start ::
  "env \<Rightarrow> string \<Rightarrow> string list \<Rightarrow> string \<Rightarrow> world \<Rightarrow> item_state \<times> world" where
  "batch_item_start env apiKey flds pid w =
     (let rawId = normalizeId pid;
          ck = cacheKey rawId flds;
          (cached, c1) = get ck (clock w) (CACHE w);
          w1 = w\<lparr>CACHE := c1\<rparr>
      in if truthy cached then (Settled (ItemOk rawId cached True), w1)
         else
           case build_details_call apiKey rawId flds of
             Inl msg \<Rightarrow> (Threw msg, w1)
           | Inr oc \<Rightarrow>
               (Pending rawId ck (fetch env (calls w1) oc) (elapsed env (calls w1) oc),
                w1\<lparr>calls := calls w1 @ [oc]\<rparr>))"

fun batch_start ::
  "env \<Rightarrow> string \<Rightarrow> string list \<Rightarrow> string list \<Rightarrow> world \<Rightarrow> item_state list \<times> world" where
  "batch_start env apiKey flds [] w = ([], w)"
| "batch_start env apiKey flds (pid # pids) w =
     (let (s, w1) = batch_item_start env apiKey flds pid w;
          (ss, w2) = batch_start env apiKey flds pids w1
      in (s # ss, w2))"

text \<open>
  The rest of an item, run when the answer to its GET arrives: the one retry with the
  default mask on the field-expansion error, the error entry for a response that is
  not ok, and the cache write and success entry otherwise.
\<close>

definition batch_item_finish ::
  "string \<Rightarrow> string \<Rightarrow> upstream_response \<Rightarrow> world \<Rightarrow> item_state \<times> world" where
  "batch_item_finish rawId ck r w =
     (if \<not> r_ok r then (Settled (ItemError rawId (r_status r) (r_text r)), w)
      else case r_json r of
             Inl msg \<Rightarrow> (Threw msg, w)
           | Inr j \<Rightarrow> (Settled (ItemOk rawId j False),
                       w\<lparr>CACHE := put ck j 3600 (clock w) (CACHE w)\<rparr>))"

definition batch_item_resume ::
  "env \<Rightarrow> string \<Rightarrow> string \<Rightarrow> string \<Rightarrow> fetch_result \<Rightarrow> nat \<Rightarrow> world \<Rightarrow> item_state \<times> world" where
  "batch_item_resume env apiKey rawId ck r d w =
     (let w0 = w\<lparr>clock := clock w + int d\<rparr>
      in case r of
           Rejects msg \<Rightarrow> (Threw msg, w0)
         | Resolves r1 \<Rightarrow>
             if \<not> r_ok r1 then
               if r_status r1 = 400 \<and> field_mask_error (r_text r1) then
                 (case build_details_call apiKey rawId DEFAULT_FIELDS of
                    Inl msg \<Rightarrow> (Threw msg, w0)
                  | Inr oc \<Rightarrow>
                      let (r', w1) = do_fetch env oc w0
                      in case r' of
                           Rejects msg \<Rightarrow> (Threw msg, w1)
                         | Resolves r2 \<Rightarrow> batch_item_finish rawId ck r2 w1)
               else (Settled (ItemError rawId (r_status r1) (r_text r1)), w0)
             else batch_item_finish rawId ck r1 w0)"

text \<open>
  \<^verbatim>\<open>await Promise.all(...)\<close>: the items resume one at a time, in the order in which their
  answers arrive. The state of the wait is the list of item states, the message of the
  first error thrown (the one \<^verbatim>\<open>Promise.all\<close> rejects with) and the world. \<open>cont\<close> is
  the rest of the item's function after its first \<^verbatim>\<open>await\<close>; a resumed item runs to
  its end before the next one resumes (a finer interleaving of the later steps of
  different items is not modelled). A position that is not pending (or not in the list)
  is skipped.
\<close>

type_synonym batch_state = "item_state list \<times> string option \<times> world"

type_synonym item_cont =
  "string \<Rightarrow> string \<Rightarrow> fetch_result \<Rightarrow> nat \<Rightarrow> world \<Rightarrow> item_state \<times> world"

definition first_error :: "string option \<Rightarrow> item_state \<Rightarrow> string option" where
  "first_error err s =
     (case err of
        Some m \<Rightarrow> Some m
      | None \<Rightarrow> (case s of Threw m \<Rightarrow> Some m | _ \<Rightarrow> None))"

definition resume_item :: "item_cont \<Rightarrow> nat \<Rightarrow> batch_state \<Rightarrow> batch_state" where
  "resume_item cont i st =
     (case st of (ss, err, w) \<Rightarrow>
        if i < length ss then
          (case ss ! i of
             Pending rawId ck r d \<Rightarrow>
               (let (s, w') = cont rawId ck r d w
                in (ss[i := s], first_error err s, w'))
           | _ \<Rightarrow> (ss, err, w))
        else (ss, err, w))"

text \<open>
  All items are awaited: first in the order the arrival list gives, then whatever is
  still pending in list order, so that every item is resumed whatever the arrival list
  is. An item that threw before its first \<^verbatim>\<open>await\<close> has rejected before any answer
  arrives; the first of them in list order is the one \<^verbatim>\<open>Promise.all\<close> rejects with.
\<close>

fun first_thrown :: "item_state list \<Rightarrow> string option" where
  "first_thrown [] = None"
| "first_thrown (Threw m # ss) = Some m"
| "first_thrown (s # ss) = first_thrown ss"

definition await_all :: "item_cont \<Rightarrow> nat list \<Rightarrow> item_state list \<Rightarrow> world \<Rightarrow> batch_state" where
  "await_all cont order ss w =
     fold (resume_item cont) (order @ [0..<length ss]) (ss, first_thrown ss, w)"

fun item_results :: "item_state list \<Rightarrow> item_result list" where
  "item_results [] = []"
| "item_results (Settled res # ss) = res # item_results ss"
| "item_results (_ # ss) = item_results ss"

text \<open>
  The batch branch. \<^verbatim>\<open>placeIds\<close> defaults to the empty array; a rejection of
  \<^verbatim>\<open>Promise.all\<close> is caught by the handler and answered with 500. Items that are still
  in flight at that moment run to their end all the same, and the world returned is the
  one they leave.
\<close>

definition batchDetails :: "env \<Rightarrow> string \<Rightarrow> body \<Rightarrow> world \<Rightarrow> http_res \<times> world" where
  "batchDetails env apiKey b w =
     (let flds = (case b_fields b of None \<Rightarrow> DEFAULT_FIELDS | Some f \<Rightarrow> f)
      in case (case b_placeIds b of None \<Rightarrow> IdArray [] | Some p \<Rightarrow> p) of
           NotAnArray \<Rightarrow> (respond 400 (ErrorCode ''placeIds_required''), w)
         | IdArray placeIds \<Rightarrow>
             if length placeIds = 0 then (respond 400 (ErrorCode ''placeIds_required''), w)
             else if length placeIds > 50 then
               (respond 400 (ErrorCode ''too_many_placeIds_max_50''), w)
             else
               let (ss, w1) = batch_start env apiKey flds placeIds w;
                   (ss', err, w2) = await_all (batch_item_resume env apiKey) (arrival env) ss w1
               in case err of
                    Some msg \<Rightarrow> (respond 500 (GatewayException msg), w2)
                  | None \<Rightarrow> (respond 200 (BatchResults (item_results ss')), w2))"

subsection \<open>Search and autocomplete\<close>

text \<open>
  The three remaining branches are the same in both source files: one outbound call,
  the provider's failure passed through, the decoded payload returned.
\<close>

definition search_finish :: "fetch_result \<times> world \<Rightarrow> http_res \<times> world" where
  "search_finish rw =
     (case rw of (r, w) \<Rightarrow>
        case r of
          Rejects msg \<Rightarrow> (respond 500 (GatewayException msg), w)
        | Resolves r1 \<Rightarrow>
            if \<not> r_ok r1 then (respond (r_status r1) (GoogleError (r_text r1)), w)
            else case r_json r1 of
                   Inl msg \<Rightarrow> (respond 500 (GatewayException msg), w)
                 | Inr j \<Rightarrow> (respond 200 (SearchData j), w))"

definition member :: "string \<Rightarrow> json option \<Rightarrow> (string \<times> json) list" where
  "member name v = (case v of None \<Rightarrow> [] | Some x \<Rightarrow> [(name, x)])"

definition or_default :: "json option \<Rightarrow> json \<Rightarrow> json" where
  "or_default v d = (case v of None \<Rightarrow> d | Some x \<Rightarrow> x)"

definition searchText :: "env \<Rightarrow> string \<Rightarrow> body \<Rightarrow> world \<Rightarrow> http_res \<times> world" where
  "searchText env apiKey b w =
     (if \<not> present (b_textQuery b) then (respond 400 (ErrorCode ''textQuery_required''), w)
      else search_finish (do_fetch env
             \<lparr>oc_method = ''POST'',
              oc_url = GOOGLE_PLACES_BASE @ ''/text:search'',
              oc_headers = [(''X-Goog-Api-Key'', apiKey), (''Content-Type'', ''application/json'')],
              oc_body = Some (JObj
                (member ''textQuery'' (map_option JStr (b_textQuery b))
                 @ member ''regionCode'' (map_option JStr (b_regionCode b))
                 @ [(''pageSize'', or_default (b_pageSize b) (JNum 10))]
                 @ member ''languageCode'' (map_option JStr (b_languageCode b))
                 @ member ''includedType'' (map_option JStr (b_includedType b))))\<rparr> w))"

text \<open>\<^verbatim>\<open>lat == null\<close> holds of \<^verbatim>\<open>undefined\<close> and of \<^verbatim>\<open>null\<close>.\<close>

definition nullish :: "json option \<Rightarrow> bool" where
  "nullish v \<longleftrightarrow> v = None \<or> v = Some JNull"

definition nearbySearch :: "env \<Rightarrow> string \<Rightarrow> body \<Rightarrow> world \<Rightarrow> http_res \<times> world" where
  "nearbySearch env apiKey b w =
     (if nullish (b_lat b) \<or> nullish (b_lng b) then
        (respond 400 (ErrorCode ''lat_lng_required''), w)
      else search_finish (do_fetch env
             \<lparr>oc_method = ''POST'',
              oc_url = GOOGLE_PLACES_BASE @ ''/places:searchNearby'',
              oc_headers = [(''X-Goog-Api-Key'', apiKey), (''Content-Type'', ''application/json'')],
              oc_body = Some (JObj
                ([(''locationRestriction'', JObj [(''circle'', JObj
                     [(''center'', JObj [(''latitude'', the (b_lat b)),
                                         (''longitude'', the (b_lng b))]),
                      (''radius'', or_default (b_radius b) (JNum 1000))])])]
                 @ (if present (b_includedType b)
                    then [(''includedTypes'', JArr [JStr (the (b_includedType b))])] else [])
                 @ [(''maxResultCount'', or_default (b_maxResultCount b) (JNum 20))]))\<rparr> w))"

definition param :: "string \<Rightarrow> string option \<Rightarrow> (string \<times> string) list" where
  "param name v = (if present v then [(name, the v)] else [])"

definition autocomplete :: "env \<Rightarrow> string \<Rightarrow> body \<Rightarrow> world \<Rightarrow> http_res \<times> world" where
  "autocomplete env apiKey b w =
     (if \<not> present (b_input b) then (respond 400 (ErrorCode ''input_required''), w)
      else search_finish (do_fetch env
             \<lparr>oc_method = ''GET'',
              oc_url = ''https://places.googleapis.com/v1/places:autocomplete?''
                       @ url_search_params
                           ([(''input'', the (b_input b))]
                            @ param ''languageCode'' (b_languageCode b)
                            @ param ''regionCode'' (b_regionCode b)
                            @ param ''types'' (b_types b)),
              oc_headers = [(''X-Goog-Api-Key'', apiKey)],
              oc_body = None\<rparr> w))"

subsection \<open>The dispatcher\<close>

definition handler :: "env \<Rightarrow> request \<Rightarrow> world \<Rightarrow> http_res \<times> world" where
  "handler env req w =
     (if req_method req = ''OPTIONS'' then (respond 204 NoContent, w)
      else
        let action = action_of req
        in if action \<notin> ALLOWED then (respond 400 (ErrorCode ''invalid_action''), w)
           else if unauthorized env req then (respond 401 (ErrorCode ''unauthorized''), w)
           else if action = ''health'' then (respond 200 (HealthOk (length (CACHE w))), w)
           else if \<not> present (GOOGLE_PLACES_API_KEY env) then
             (respond 500 (ErrorCode ''missing_google_api_key''), w)
           else
             let apiKey = the (GOOGLE_PLACES_API_KEY env);
                 b = body_or_empty req
             in if action = ''batchDetails'' then batchDetails env apiKey b w
                else if action = ''details'' then details env apiKey b w
                else if action = ''searchText'' then searchText env apiKey b w
                else if action = ''nearbySearch'' then nearbySearch env apiKey b w
                else if action = ''autocomplete'' then autocomplete env apiKey b w
                else (respond 400 (ErrorCode ''unhandled_action''), w))"

section \<open>The second handler\<close>

text \<open>
  The repository holds a second source file with a handler of the same shape. Its cache,
  allow-list, checks and search branches are the ones above. Its details and batch
  branches differ: the identifier is used as it arrives, there is no retry, the default
  mask is a shorter list, and \<^verbatim>\<open>fields.sort()\<close> sorts the caller's list in place, so
  that the mask sent to the provider is the sorted one.
\<close>

definition DEFAULT_FIELDS_plain :: "string list" where
  "DEFAULT_FIELDS_plain =
     [''id'', ''displayName'', ''formattedAddress'', ''rating'', ''userRatingCount'', ''reviews'']"

text \<open>
  The cache key of the second handler,
  \<^verbatim>\<open>`details:${placeId}:${fields.sort().join(',')}`\<close>, over the identifier as it arrived.
\<close>

definition cacheKey_plain :: "string \<Rightarrow> string list \<Rightarrow> string" where
  "cacheKey_plain placeId flds = ''details:'' @ placeId @ '':'' @ join '','' (sort flds)"

definition details_plain :: "env \<Rightarrow> string \<Rightarrow> body \<Rightarrow> world \<Rightarrow> http_res \<times> world" where
  "details_plain env apiKey b w =
     (let flds = (case b_fields b of None \<Rightarrow> DEFAULT_FIELDS_plain | Some f \<Rightarrow> f)
      in if \<not> present (b_placeId b) then (respond 400 (ErrorCode ''placeId_required''), w)
         else
           let placeId = the (b_placeId b);
               ck = cacheKey_plain placeId flds;
               (cached, c1) = get ck (clock w) (CACHE w);
               w1 = w\<lparr>CACHE := c1\<rparr>
           in if truthy cached then (respond 200 (DetailsData cached True), w1)
              else
                case build_details_call apiKey placeId (sort flds) of
                  Inl msg \<Rightarrow> (respond 500 (GatewayException msg), w1)
                | Inr oc \<Rightarrow>
                    let (r, w2) = do_fetch env oc w1
                    in case r of
                         Rejects msg \<Rightarrow> (respond 500 (GatewayException msg), w2)
                       | Resolves r1 \<Rightarrow> details_finish ck r1 w2)"

definition batch_item_start_plain ::
  "env \<Rightarrow> string \<Rightarrow> string list \<Rightarrow> string \<Rightarrow> world \<Rightarrow> item_state \<times> world" where
  "batch_item_start_plain env apiKey flds pid w =
     (let ck = cacheKey_plain pid flds;
          (cached, c1) = get ck (clock w) (CACHE w);
          w1 = w\<lparr>CACHE := c1\<rparr>
      in if truthy cached then (Settled (ItemOk pid cached True), w1)
         else
           case build_details_call apiKey pid (sort flds) of
             Inl msg \<Rightarrow> (Threw msg, w1)
           | Inr oc \<Rightarrow>
               (Pending pid ck (fetch env (calls w1) oc) (elapsed env (calls w1) oc),
                w1\<lparr>calls := calls w1 @ [oc]\<rparr>))"

fun batch_start_plain ::
  "env \<Rightarrow> string \<Rightarrow> string list \<Rightarrow> string list \<Rightarrow> world \<Rightarrow> item_state list \<times> world" where
  "batch_start_plain env apiKey flds [] w = ([], w)"
| "batch_start_plain env apiKey flds (pid # pids) w =
     (let (s, w1) = batch_item_start_plain env apiKey flds pid w;
          (ss, w2) = batch_start_plain env apiKey flds pids w1
      in (s # ss, w2))"

definition batch_item_resume_plain ::
  "string \<Rightarrow> string \<Rightarrow> fetch_result \<Rightarrow> nat \<Rightarrow> world \<Rightarrow> item_state \<times> world" where
  "batch_item_resume_plain pid ck r d w =
     (let w0 = w\<lparr>clock := clock w + int d\<rparr>
      in case r of
           Rejects msg \<Rightarrow> (Threw msg, w0)
         | Resolves r1 \<Rightarrow> batch_item_finish pid ck r1 w0)"

definition batchDetails_plain :: "env \<Rightarrow> string \<Rightarrow> body \<Rightarrow> world \<Rightarrow> http_res \<times> world" where
  "batchDetails_plain env apiKey b w =
     (let flds = (case b_fields b of None \<Rightarrow> DEFAULT_FIELDS_plain | Some f \<Rightarrow> f)
      in case (case b_placeIds b of None \<Rightarrow> IdArray [] | Some p \<Rightarrow> p) of
           NotAnArray \<Rightarrow> (respond 400 (ErrorCode ''placeIds_required''), w)
         | IdArray placeIds \<Rightarrow>
             if length placeIds = 0 then (respond 400 (ErrorCode ''placeIds_required''), w)
             else if length placeIds > 50 then
               (respond 400 (ErrorCode ''too_many_placeIds_max_50''), w)
             else
               let (ss, w1) = batch_start_plain env apiKey flds placeIds w;
                   (ss', err, w2) = await_all batch_item_resume_plain (arrival env) ss w1
               in case err of
                    Some msg \<Rightarrow> (respond 500 (GatewayException msg), w2)
                  | None \<Rightarrow> (respond 200 (BatchResults (item_results ss')), w2))"

definition handler_plain :: "env \<Rightarrow> request \<Rightarrow> world \<Rightarrow> http_res \<times> world" where
  "handler_plain env req w =
     (if req_method req = ''OPTIONS'' then (respond 204 NoContent, w)
      else
        let action = action_of req
        in if action \<notin> ALLOWED then (respond 400 (ErrorCode ''invalid_action''), w)
           else if unauthorized env req then (respond 401 (ErrorCode ''unauthorized''), w)
           else if action = ''health'' then (respond 200 (HealthOk (length (CACHE w))), w)
           else if \<not> present (GOOGLE_PLACES_API_KEY env) then
             (respond 500 (ErrorCode ''missing_google_api_key''), w)
           else
             let apiKey = the (GOOGLE_PLACES_API_KEY env);
                 b = body_or_empty req
             in if action = ''batchDetails'' then batchDetails_plain env apiKey b w
                else if action = ''details'' then details_plain env apiKey b w
                else if action = ''searchText'' then searchText env apiKey b w
                else if action = ''nearbySearch'' then nearbySearch env apiKey b w
                else if action = ''autocomplete'' then autocomplete env apiKey b w
                else (respond 400 (ErrorCode ''unhandled_action''), w))"

section \<open>Concrete requests and a concrete provider\<close>

text \<open>
  Two providers used to run the handlers. The steady one answers a mask that names
  the unknown field \<open>zzz\<close> with the field-expansion error, knows no place \<open>missing\<close>,
  and otherwise returns a small place object. The other one does the same but refuses
  the connection for the identifier \<open>down\<close> and answers 200 with a body that is not
  JSON for the identifier \<open>garbled\<close>.
\<close>

definition sample_place :: json where
  "sample_place = JObj [(''id'', JStr ''ChIJabc'')]"

definition field_error_response :: upstream_response where
  "field_error_response =
     \<lparr>r_status = 400,
      r_text = ''Error expanding 'fields' parameter. Cannot find matching fields for path 'zzz'.'',
      r_json = Inr JNull\<rparr>"

definition not_found_response :: upstream_response where
  "not_found_response =
     \<lparr>r_status = 404, r_text = ''Not Found'', r_json = Inl ''Unexpected token N''\<rparr>"

definition ok_response :: upstream_response where
  "ok_response = \<lparr>r_status = 200, r_text = ''ok'', r_json = Inr sample_place\<rparr>"

definition steady_fetch :: "outcall list \<Rightarrow> outcall \<Rightarrow> fetch_result" where
  "steady_fetch log oc =
     (if sublist ''zzz'' (the (map_of (oc_headers oc) ''X-Goog-FieldMask'')) then
        Resolves field_error_response
      else if prefix (GOOGLE_PLACES_BASE @ ''/places/missing?'') (oc_url oc) then
        Resolves not_found_response
      else Resolves ok_response)"

definition garbled_response :: upstream_response where
  "garbled_response =
     \<lparr>r_status = 200, r_text = ''<html>'', r_json = Inl ''Unexpected token <''\<rparr>"

definition sample_fetch :: "outcall list \<Rightarrow> outcall \<Rightarrow> fetch_result" where
  "sample_fetch log oc =
     (if prefix (GOOGLE_PLACES_BASE @ ''/places/down?'') (oc_url oc) then
        Rejects ''connect ECONNREFUSED''
      else if prefix (GOOGLE_PLACES_BASE @ ''/places/garbled?'') (oc_url oc) then
        Resolves garbled_response
      else steady_fetch log oc)"

definition sample_delay :: "outcall list \<Rightarrow> outcall \<Rightarrow> nat" where
  "sample_delay log oc = 7"

definition sample_env :: env where
  "sample_env =
     \<lparr>GATEWAY_TOKEN = Some ''s3cret'', GOOGLE_PLACES_API_KEY = Some ''gk'',
      fetch = sample_fetch, elapsed = sample_delay, arrival = []\<rparr>"

definition steady_env :: env where
  "steady_env =
     \<lparr>GATEWAY_TOKEN = Some ''s3cret'', GOOGLE_PLACES_API_KEY = Some ''gk'',
      fetch = steady_fetch, elapsed = sample_delay, arrival = [2, 0]\<rparr>"

definition keyless_env :: env where
  "keyless_env =
     \<lparr>GATEWAY_TOKEN = Some ''s3cret'', GOOGLE_PLACES_API_KEY = None,
      fetch = sample_fetch, elapsed = sample_delay, arrival = []\<rparr>"

definition fresh_world :: world where
  "fresh_world = \<lparr>CACHE = [], calls = [], clock = 100\<rparr>"

definition preflight_request :: request where
  "preflight_request =
     \<lparr>req_method = ''OPTIONS'', req_query_action = Some ''deletePlace'',
      req_gateway_key = None, req_body = None\<rparr>"

definition delete_request :: request where
  "delete_request =
     \<lparr>req_method = ''POST'', req_query_action = None, req_gateway_key = None,
      req_body = Some (empty_body\<lparr>b_action := Some ''deletePlace''\<rparr>)\<rparr>"

definition details_preflight :: request where
  "details_preflight =
     \<lparr>req_method = ''OPTIONS'', req_query_action = Some ''details'',
      req_gateway_key = None, req_body = None\<rparr>"

definition details_no_key :: request where
  "details_no_key =
     \<lparr>req_method = ''POST'', req_query_action = None, req_gateway_key = Some ''guess'',
      req_body = Some (empty_body\<lparr>b_action := Some ''details'', b_placeId := Some ''ChIJabc''\<rparr>)\<rparr>"

definition batch_request :: "string option \<Rightarrow> placeIds_member option \<Rightarrow> string list option \<Rightarrow> request" where
  "batch_request gw ids flds =
     \<lparr>req_method = ''POST'', req_query_action = None, req_gateway_key = gw,
      req_body = Some (empty_body\<lparr>b_action := Some ''batchDetails'', b_placeIds := ids,
                                   b_fields := flds\<rparr>)\<rparr>"

definition batch_preflight :: request where
  "batch_preflight =
     \<lparr>req_method = ''OPTIONS'', req_query_action = Some ''batchDetails'',
      req_gateway_key = None,
      req_body = Some (empty_body\<lparr>b_placeIds := Some (IdArray (replicate 51 ''ChIJabc''))\<rparr>)\<rparr>"

definition details_request :: "string \<Rightarrow> string list option \<Rightarrow> request" where
  "details_request pid flds =
     \<lparr>req_method = ''POST'', req_query_action = None, req_gateway_key = Some ''s3cret'',
      req_body = Some (empty_body\<lparr>b_action := Some ''details'', b_placeId := Some pid,
                                   b_fields := flds\<rparr>)\<rparr>"


definition bad_mask_body :: body where
  "bad_mask_body = empty_body\<lparr>b_placeId := Some ''places/missing'', b_fields := Some [''zzz'']\<rparr>"






text \<open>
  A cache filled to the cap, with the keys \<open>\<close>, \<open>a\<close>, \<open>aa\<close>, ... in insertion order;
  used to run the eviction branch of \<^const>\<open>put\<close> on a concrete state.
\<close>

definition full_cache :: cache where
  "full_cache = map (\<lambda>i. (replicate i CHR ''a'', \<lparr>data = JNum (int i), until = 0\<rparr>)) [0..<CACHE_MAX]"

section \<open>Predicates for the batch properties\<close>

text \<open>
  The provider answers every call with a response, and an ok response carries a body
  that decodes.
\<close>

definition always_answers :: "env \<Rightarrow> bool" where
  "always_answers env \<longleftrightarrow>
     (\<forall>log oc. \<exists>r. fetch env log oc = Resolves r \<and> (r_ok r \<longrightarrow> (\<exists>j. r_json r = Inr j)))"

text \<open>
  A lookup under the key \<open>ck\<close> misses the cache of the world \<open>w\<close>: the key is not there,
  its entry has expired, or the payload stored is a value that JavaScript takes for
  false.
\<close>

definition cache_miss :: "world \<Rightarrow> string \<Rightarrow> bool" where
  "cache_miss w ck \<longleftrightarrow> \<not> truthy (fst (get ck (clock w) (CACHE w)))"

text \<open>
  The log of outbound calls once the items for the identifiers \<open>ps\<close> have started in the
  world \<open>w\<close> with the mask \<open>flds\<close>: every item that misses the cache has issued its GET,
  in list order.
\<close>

definition issued :: "string \<Rightarrow> string list \<Rightarrow> world \<Rightarrow> string list \<Rightarrow> outcall list" where
  "issued k flds w ps =
     calls w @ map (\<lambda>p. details_call k p flds) (filter (\<lambda>p. cache_miss w (cacheKey p flds)) ps)"

text \<open>
  The entry that stands for the response \<open>r\<close> to the last GET of the item for \<open>p\<close>: a
  success entry with the decoded payload and \<^verbatim>\<open>cached: false\<close> when \<open>r\<close> is ok, an error
  entry with the status and body of \<open>r\<close> when it is not.
\<close>

fun entry_of :: "string \<Rightarrow> upstream_response \<Rightarrow> item_result \<Rightarrow> bool" where
  "entry_of p r (ItemOk q j c) = (q = p \<and> r_ok r \<and> r_json r = Inr j \<and> \<not> c)"
| "entry_of p r (ItemError q st txt) = (q = p \<and> \<not> r_ok r \<and> st = r_status r \<and> txt = r_text r)"

text \<open>
  The entry of an item of \<^verbatim>\<open>api/places.ts\<close> whose GET was answered with \<open>r\<close>, where
  \<open>log0\<close> is the log when the wait began: the entry for \<open>r\<close> itself, unless \<open>r\<close> is the
  field-expansion error; then it is the entry for the provider's answer to the one
  retry with the default mask, issued at some later state of the log.
\<close>

definition fetched_entry ::
  "env \<Rightarrow> string \<Rightarrow> outcall list \<Rightarrow> string \<Rightarrow> fetch_result \<Rightarrow> item_result \<Rightarrow> bool" where
  "fetched_entry env k log0 p r res \<longleftrightarrow>
     (\<exists>r1. r = Resolves r1
        \<and> (if r_status r1 = 400 \<and> field_mask_error (r_text r1)
           then \<exists>log r2. prefix log0 log
                  \<and> fetch env log (details_call k p DEFAULT_FIELDS) = Resolves r2
                  \<and> entry_of p r2 res
           else entry_of p r1 res))"

text \<open>The same for the second handler, which does not retry.\<close>

definition fetched_entry_plain :: "string \<Rightarrow> fetch_result \<Rightarrow> item_result \<Rightarrow> bool" where
  "fetched_entry_plain p r res \<longleftrightarrow> (\<exists>r1. r = Resolves r1 \<and> entry_of p r1 res)"

text \<open>
  The entry of the \<open>i\<close>-th item of a batch over the identifiers \<open>ps\<close> (as the handler uses
  them) with the mask \<open>flds\<close>, started in the world \<open>w\<close>. A payload found in the cache of \<open>w\<close>
  is returned with \<^verbatim>\<open>cached: true\<close>. Otherwise the item's GET is issued after the GETs
  of the items before it that missed the cache, and the entry is the one for the
  provider's answer to it.
\<close>

definition batch_entry ::
  "env \<Rightarrow> string \<Rightarrow> string list \<Rightarrow> world \<Rightarrow> string list \<Rightarrow> nat \<Rightarrow> item_result \<Rightarrow> bool" where
  "batch_entry env k flds w ps i res \<longleftrightarrow>
     (let p = ps ! i;
          cached = fst (get (cacheKey p flds) (clock w) (CACHE w))
      in if truthy cached then res = ItemOk p cached True
         else fetched_entry env k (issued k flds w ps) p
                (fetch env (issued k flds w (take i ps)) (details_call k p flds)) res)"

definition batch_entry_plain ::
  "env \<Rightarrow> string \<Rightarrow> string list \<Rightarrow> world \<Rightarrow> string list \<Rightarrow> nat \<Rightarrow> item_result \<Rightarrow> bool" where
  "batch_entry_plain env k flds w ps i res \<longleftrightarrow>
     (let p = ps ! i;
          cached = fst (get (cacheKey p flds) (clock w) (CACHE w))
      in if truthy cached then res = ItemOk p cached True
         else fetched_entry_plain p
                (fetch env (issued k flds w (take i ps)) (details_call k p flds)) res)"

text \<open>
  The state of the \<open>i\<close>-th item when every item has run up to its first \<^verbatim>\<open>await\<close>:
  settled from the cache, or pending with the answer to its GET.
\<close>

definition started ::
  "env \<Rightarrow> string \<Rightarrow> string list \<Rightarrow> world \<Rightarrow> string list \<Rightarrow> nat \<Rightarrow> item_state" where
  "started env k flds w ps i =
     (let p = ps ! i;
          ck = cacheKey p flds;
          cached = fst (get ck (clock w) (CACHE w))
      in if truthy cached then Settled (ItemOk p cached True)
         else Pending p ck (fetch env (issued k flds w (take i ps)) (details_call k p flds))
                (elapsed env (issued k flds w (take i ps)) (details_call k p flds)))"

text \<open>
  What is known of an item while the batch is awaited, given its state \<open>s0\<close> when the
  wait began: an item that was settled is unchanged, an item that was pending is still
  pending or has settled with a result that \<open>Q\<close> relates to what it waited for, and no
  item had thrown. \<open>wait_inv\<close> adds a property \<open>I\<close> of the item states and the world, and
  that the positions in \<open>D\<close> are no longer pending.
\<close>

fun item_rel ::
  "(string \<Rightarrow> string \<Rightarrow> fetch_result \<Rightarrow> item_result \<Rightarrow> bool) \<Rightarrow> item_state \<Rightarrow> item_state \<Rightarrow> bool" where
  "item_rel Q (Settled res0) s = (s = Settled res0)"
| "item_rel Q (Pending q ck r d) s = (s = Pending q ck r d \<or> (\<exists>res. s = Settled res \<and> Q q ck r res))"
| "item_rel Q (Threw m) s = False"

fun item_done ::
  "(string \<Rightarrow> string \<Rightarrow> fetch_result \<Rightarrow> item_result \<Rightarrow> bool) \<Rightarrow> item_state \<Rightarrow> item_result \<Rightarrow> bool" where
  "item_done Q (Settled res0) res = (res = res0)"
| "item_done Q (Pending q ck r d) res = Q q ck r res"
| "item_done Q (Threw m) res = False"

fun is_pending :: "item_state \<Rightarrow> bool" where
  "is_pending (Pending q ck r d) = True"
| "is_pending s = False"

definition wait_inv ::
  "(string \<Rightarrow> string \<Rightarrow> fetch_result \<Rightarrow> item_result \<Rightarrow> bool) \<Rightarrow> (item_state list \<Rightarrow> world \<Rightarrow> bool)
   \<Rightarrow> item_state list \<Rightarrow> nat set \<Rightarrow> batch_state \<Rightarrow> bool" where
  "wait_inv Q I ss0 D st \<longleftrightarrow>
     (case st of (ss, err, w) \<Rightarrow>
        err = None \<and> list_all2 (item_rel Q) ss0 ss \<and> I ss w
        \<and> (\<forall>j \<in> D. j < length ss \<longrightarrow> \<not> is_pending (ss ! j)))"



definition three_ids :: "string list" where
  "three_ids = [''ChIJabc'', ''missing'', ''places/ChIJxyz'']"

text \<open>An identifier that is one unpaired surrogate, \<^verbatim>\<open>"\ud800"\<close> in a JSON body.\<close>

definition lone_surrogate :: string where
  "lone_surrogate = [CHR 0xED, CHR 0xA0, CHR 0x80]"

section \<open>Properties of the cache\<close>

lemma length_update_new:
  "k \<notin> fst ` set c \<Longrightarrow> length (AList.update k e c) = Suc (length c)"
  by (induction c) auto

lemma length_update_old:
  "k \<in> fst ` set c \<Longrightarrow> length (AList.update k e c) = length c"
  by (induction c) auto

lemma update_new_append:
  "k \<notin> fst ` set c \<Longrightarrow> AList.update k e c = c @ [(k, e)]"
  by (induction c) auto

lemma delete_first_key:
  "distinct (map fst ((k, e) # c)) \<Longrightarrow> AList.delete k ((k, e) # c) = c"
  by (simp add: AList.delete_eq) (metis AList.delete_eq delete_id)

lemma length_delete_present:
  "distinct (map fst c) \<Longrightarrow> k \<in> fst ` set c \<Longrightarrow> Suc (length (AList.delete k c)) = length c"
proof (induction c)
  case Nil
  then show ?case by simp
next
  case (Cons p c)
  show ?case
  proof (cases "fst p = k")
    case True
    with Cons.prems have "AList.delete k (p # c) = c"
      using delete_first_key [of k "snd p" c] by simp
    then show ?thesis by simp
  next
    case False
    with Cons show ?thesis by auto
  qed
qed

lemma cache_inv_empty: "cache_inv []"
  by (simp add: cache_inv_def)

lemma cache_inv_delete: "cache_inv c \<Longrightarrow> cache_inv (AList.delete k c)"
  unfolding cache_inv_def
  using distinct_delete [of c k] length_delete_le [of k c] by simp

lemma put_no_evict:
  "k \<in> fst ` set c \<or> length c < CACHE_MAX \<Longrightarrow> length c \<le> CACHE_MAX \<Longrightarrow>
   put k v ttl now c = AList.update k \<lparr>data = v, until = now + ttl * 1000\<rparr> c"
  by (cases "k \<in> fst ` set c")
     (auto simp: put_def Let_def length_update_new length_update_old)

lemma put_over_cap:
  assumes "AList.update k \<lparr>data = v, until = now + ttl * 1000\<rparr> c = (a, b) # r"
    and "length ((a, b) # r) > CACHE_MAX"
  shows "put k v ttl now c = AList.delete a ((a, b) # r)"
  unfolding put_def Let_def assms(1) using assms(2) by simp

lemma put_evict:
  assumes "distinct (map fst c)" "k \<notin> fst ` set c" "length c = CACHE_MAX"
  shows "put k v ttl now c = tl c @ [(k, \<lparr>data = v, until = now + ttl * 1000\<rparr>)]"
proof -
  let ?e = "\<lparr>data = v, until = now + ttl * 1000\<rparr>"
  from assms(3) obtain a b c' where c: "c = (a, b) # c'"
    by (cases c) (auto simp: CACHE_MAX_def)
  have upd: "AList.update k ?e c = (a, b) # (c' @ [(k, ?e)])"
    using update_new_append [OF assms(2), of ?e] c by simp
  have d: "distinct (map fst ((a, b) # (c' @ [(k, ?e)])))"
    using assms(1,2) c by auto
  have "put k v ttl now c = AList.delete a ((a, b) # (c' @ [(k, ?e)]))"
    using upd assms(3) c by (intro put_over_cap) simp_all
  also have "\<dots> = c' @ [(k, ?e)]"
    using d by (rule delete_first_key)
  finally show ?thesis
    using c by simp
qed

lemma cache_inv_put: "cache_inv c \<Longrightarrow> cache_inv (put k v ttl now c)"
proof -
  assume inv: "cache_inv c"
  show ?thesis
  proof (cases "k \<in> fst ` set c \<or> length c < CACHE_MAX")
    case True
    then have "put k v ttl now c = AList.update k \<lparr>data = v, until = now + ttl * 1000\<rparr> c"
      using inv by (intro put_no_evict) (auto simp: cache_inv_def)
    moreover have "length (AList.update k \<lparr>data = v, until = now + ttl * 1000\<rparr> c) \<le> CACHE_MAX"
      using True inv
      by (cases "k \<in> fst ` set c") (auto simp: cache_inv_def length_update_new length_update_old)
    ultimately show ?thesis
      using inv distinct_update [of c k] by (simp add: cache_inv_def)
  next
    case False
    with inv have new: "k \<notin> fst ` set c" and full: "length c = CACHE_MAX"
      by (auto simp: cache_inv_def)
    have "put k v ttl now c = tl c @ [(k, \<lparr>data = v, until = now + ttl * 1000\<rparr>)]"
      using inv new full by (intro put_evict) (auto simp: cache_inv_def)
    moreover from full obtain p c' where "c = p # c'"
      by (cases c) (auto simp: CACHE_MAX_def)
    ultimately show ?thesis
      using inv new full by (auto simp: cache_inv_def)
  qed
qed

lemma cache_inv_get: "cache_inv c \<Longrightarrow> cache_inv (snd (get k now c))"
  by (auto simp: get_def cache_inv_delete split: option.splits)

lemma map_of_put_same:
  assumes "length c \<le> CACHE_MAX"
  shows "map_of (put k v ttl now c) k = Some \<lparr>data = v, until = now + ttl * 1000\<rparr>"
proof -
  let ?e = "\<lparr>data = v, until = now + ttl * 1000\<rparr>"
  show ?thesis
  proof (cases "k \<in> fst ` set c \<or> length c < CACHE_MAX")
    case True
    then have "put k v ttl now c = AList.update k ?e c"
      using assms by (rule put_no_evict)
    then show ?thesis by (simp add: update_conv')
  next
    case False
    then have new: "k \<notin> fst ` set c" and full: "length c = CACHE_MAX"
      using assms by auto
    from full obtain a b c' where c: "c = (a, b) # c'"
      by (cases c) (auto simp: CACHE_MAX_def)
    have upd: "AList.update k ?e c = (a, b) # (c' @ [(k, ?e)])"
      using update_new_append [OF new, of ?e] c by simp
    have ne: "a \<noteq> k"
      using new c by auto
    have "put k v ttl now c = AList.delete a ((a, b) # (c' @ [(k, ?e)]))"
      using upd full c by (intro put_over_cap) simp_all
    moreover have "map_of (AList.delete a ((a, b) # (c' @ [(k, ?e)]))) k
        = map_of ((a, b) # (c' @ [(k, ?e)])) k"
      using ne by (intro map_of_delete) simp
    moreover have "map_of ((a, b) # (c' @ [(k, ?e)])) k = Some ?e"
      using upd update_conv' [of k ?e c] by (metis fun_upd_same)
    ultimately show ?thesis by simp
  qed
qed

lemma full_cache_length: "length full_cache = CACHE_MAX"
  by (simp add: full_cache_def)

lemma full_cache_keys: "map fst full_cache = map (\<lambda>i. replicate i CHR ''a'') [0..<CACHE_MAX]"
  by (simp add: full_cache_def comp_def)

lemma full_cache_distinct: "distinct (map fst full_cache)"
proof -
  have "inj_on (\<lambda>i. replicate i CHR ''a'') (set [0..<CACHE_MAX])"
    by (rule inj_onI) (metis length_replicate)
  then show ?thesis
    unfolding full_cache_keys by (simp add: distinct_map)
qed

lemma full_cache_inv: "cache_inv full_cache"
  by (simp add: cache_inv_def full_cache_distinct full_cache_length)

lemma full_cache_fresh: "''b'' \<notin> fst ` set full_cache"
proof
  assume "''b'' \<in> fst ` set full_cache"
  then have "''b'' \<in> set (map fst full_cache)" by simp
  then obtain i where "''b'' = replicate i CHR ''a''"
    unfolding full_cache_keys by auto
  then have "CHR ''b'' \<in> set (replicate i CHR ''a'')"
    by (metis list.set_intros(1))
  then show False by simp
qed

lemma full_cache_hd: "hd full_cache = ([], \<lparr>data = JNum 0, until = 0\<rparr>)"
proof -
  have "0 < CACHE_MAX"
    by (simp add: CACHE_MAX_def)
  then have "[0..<CACHE_MAX] = 0 # [Suc 0..<CACHE_MAX]"
    by (rule upt_conv_Cons)
  then show ?thesis
    unfolding full_cache_def by simp
qed

section \<open>Building the call of a details lookup\<close>

lemma build_details_call_ok:
  "uri_ok rawId \<Longrightarrow> uri_ok (join '','' flds) \<Longrightarrow>
   build_details_call k rawId flds = Inr (details_call k rawId flds)"
  by (simp add: build_details_call_def details_call_def encodeURIComponent_def uri_ok_def)

lemma build_details_call_malformed:
  "\<not> (uri_ok rawId \<and> uri_ok (join '','' flds)) \<Longrightarrow>
   build_details_call k rawId flds = Inl ''URI malformed''"
  by (auto simp: build_details_call_def encodeURIComponent_def uri_ok_def)

lemma build_details_call_Inr:
  "build_details_call k rawId flds = Inr oc \<Longrightarrow>
   oc = details_call k rawId flds \<and> uri_ok rawId \<and> uri_ok (join '','' flds)"
  by (auto simp: build_details_call_def details_call_def encodeURIComponent_def uri_ok_def
      split: if_splits)

lemma default_fields_ok: "uri_ok (join '','' DEFAULT_FIELDS)"
  by code_simp

section \<open>The handlers keep the cache invariant\<close>

text \<open>
  Every request leaves a cache that satisfies the invariant, so the invariant holds of
  every cache the process can reach from the empty one.
\<close>

lemma do_fetch_cache: "CACHE (snd (do_fetch env oc w)) = CACHE w"
  by (simp add: do_fetch_def)

lemma search_finish_cache: "CACHE (snd (search_finish (do_fetch env oc w))) = CACHE w"
  by (simp add: search_finish_def do_fetch_def split: fetch_result.splits sum.splits)

lemma details_finish_inv:
  "cache_inv (CACHE w) \<Longrightarrow> cache_inv (CACHE (snd (details_finish ck r w)))"
  by (simp add: details_finish_def cache_inv_put split: sum.splits)

lemma batch_item_finish_inv:
  "cache_inv (CACHE w) \<Longrightarrow> cache_inv (CACHE (snd (batch_item_finish p ck r w)))"
  by (simp add: batch_item_finish_def cache_inv_put split: sum.splits)

lemma details_inv:
  assumes "cache_inv (CACHE w)"
  shows "cache_inv (CACHE (snd (details env k b w)))"
proof -
  have g: "cache_inv (snd (get key (clock w) (CACHE w)))" for key
    using assms by (rule cache_inv_get)
  show ?thesis
    using assms g
    by (auto simp: details_def Let_def do_fetch_def details_finish_inv split_beta
        split: fetch_result.splits sum.splits)
qed

lemma details_plain_inv:
  assumes "cache_inv (CACHE w)"
  shows "cache_inv (CACHE (snd (details_plain env k b w)))"
proof -
  have g: "cache_inv (snd (get key (clock w) (CACHE w)))" for key
    using assms by (rule cache_inv_get)
  show ?thesis
    using assms g
    by (auto simp: details_plain_def Let_def do_fetch_def details_finish_inv split_beta
        split: fetch_result.splits sum.splits)
qed

lemma batch_item_resume_inv:
  "cache_inv (CACHE w) \<Longrightarrow> cache_inv (CACHE (snd (batch_item_resume env k p ck r d w)))"
  by (auto simp: batch_item_resume_def Let_def do_fetch_def batch_item_finish_inv split_beta
      split: fetch_result.splits sum.splits)

lemma batch_item_resume_plain_inv:
  "cache_inv (CACHE w) \<Longrightarrow> cache_inv (CACHE (snd (batch_item_resume_plain p ck r d w)))"
  by (auto simp: batch_item_resume_plain_def Let_def batch_item_finish_inv
      split: fetch_result.splits)

lemma batch_item_start_cache_inv:
  assumes "cache_inv (CACHE w)"
  shows "cache_inv (CACHE (snd (batch_item_start env k flds pid w)))"
    and "cache_inv (CACHE (snd (batch_item_start_plain env k flds pid w)))"
proof -
  have g: "cache_inv (snd (get key (clock w) (CACHE w)))" for key
    using assms by (rule cache_inv_get)
  show "cache_inv (CACHE (snd (batch_item_start env k flds pid w)))"
    using g by (auto simp: batch_item_start_def Let_def split_beta split: sum.splits)
  show "cache_inv (CACHE (snd (batch_item_start_plain env k flds pid w)))"
    using g by (auto simp: batch_item_start_plain_def Let_def split_beta split: sum.splits)
qed

lemma batch_start_cache_inv:
  "cache_inv (CACHE w) \<Longrightarrow> cache_inv (CACHE (snd (batch_start env k flds ids w)))"
proof (induction ids arbitrary: w)
  case Nil
  then show ?case by simp
next
  case (Cons pid ids)
  from Cons.IH [OF batch_item_start_cache_inv(1) [OF Cons.prems, of env k flds pid]]
  show ?case by (simp add: split_beta Let_def)
qed

lemma batch_start_plain_cache_inv:
  "cache_inv (CACHE w) \<Longrightarrow> cache_inv (CACHE (snd (batch_start_plain env k flds ids w)))"
proof (induction ids arbitrary: w)
  case Nil
  then show ?case by simp
next
  case (Cons pid ids)
  from Cons.IH [OF batch_item_start_cache_inv(2) [OF Cons.prems, of env k flds pid]]
  show ?case by (simp add: split_beta Let_def)
qed

lemma resume_item_cache_inv:
  assumes "\<And>p ck r d w. cache_inv (CACHE w) \<Longrightarrow> cache_inv (CACHE (snd (cont p ck r d w)))"
    and "cache_inv (CACHE (snd (snd st)))"
  shows "cache_inv (CACHE (snd (snd (resume_item cont i st))))"
  using assms
  by (cases st) (auto simp: resume_item_def split_beta Let_def split: item_state.splits)

lemma await_all_cache_inv:
  assumes step: "\<And>p ck r d w. cache_inv (CACHE w) \<Longrightarrow> cache_inv (CACHE (snd (cont p ck r d w)))"
    and "cache_inv (CACHE w)"
  shows "cache_inv (CACHE (snd (snd (await_all cont order ss w))))"
proof -
  have "cache_inv (CACHE (snd (snd st))) \<Longrightarrow>
      cache_inv (CACHE (snd (snd (fold (resume_item cont) xs st))))" for xs st
  proof (induction xs arbitrary: st)
    case Nil
    then show ?case by simp
  next
    case (Cons i xs)
    from Cons.IH [OF resume_item_cache_inv [where cont = cont, OF step Cons.prems]]
    show ?case by simp
  qed
  from this [of "(ss, first_thrown ss, w)" "order @ [0..<length ss]"] assms(2) show ?thesis
    unfolding await_all_def by simp
qed

lemma batchDetails_inv:
  assumes "cache_inv (CACHE w)"
  shows "cache_inv (CACHE (snd (batchDetails env k b w)))"
    and "cache_inv (CACHE (snd (batchDetails_plain env k b w)))"
proof -
  show "cache_inv (CACHE (snd (batchDetails env k b w)))"
    using assms
      await_all_cache_inv [where cont = "batch_item_resume env k" and order = "arrival env",
        OF batch_item_resume_inv batch_start_cache_inv [OF assms, of env k _ _]]
    by (auto simp: batchDetails_def Let_def split_beta
        split: placeIds_member.splits option.splits)
  show "cache_inv (CACHE (snd (batchDetails_plain env k b w)))"
    using assms
      await_all_cache_inv [where cont = "batch_item_resume_plain" and order = "arrival env",
        OF batch_item_resume_plain_inv batch_start_plain_cache_inv [OF assms, of env k _ _]]
    by (auto simp: batchDetails_plain_def Let_def split_beta
        split: placeIds_member.splits option.splits)
qed

lemma handler_keeps_cache_inv:
  assumes "cache_inv (CACHE w)"
  shows "cache_inv (CACHE (snd (handler env req w)))"
    and "cache_inv (CACHE (snd (handler_plain env req w)))"
  using assms details_inv [OF assms] details_plain_inv [OF assms] batchDetails_inv [OF assms]
  by (auto simp: handler_def handler_plain_def Let_def searchText_def nearbySearch_def
      autocomplete_def search_finish_cache)

section \<open>Cache correctness\<close>

text \<open>
  Claim C2. In a cache that satisfies the state invariant, \<open>put k v ttl\<close> followed by
  \<open>get k\<close> at a clock reading not later than the expiry written by the \<open>put\<close>
  (in particular at the same reading, when the TTL is not negative) returns \<open>v\<close> and
  leaves the cache as the \<open>put\<close> left it. A \<open>get k\<close> at a later reading than the expiry
  returns \<^verbatim>\<open>null\<close> and deletes the entry from the map. A \<open>get\<close> of a key that is not in
  the map returns \<^verbatim>\<open>null\<close> and leaves the cache unchanged.
\<close>

theorem cache_put_get:
  assumes "cache_inv c"
  shows "(0 \<le> ttl \<longrightarrow> get k now (put k v ttl now c) = (v, put k v ttl now c))
       \<and> (now' \<le> now + ttl * 1000 \<longrightarrow> get k now' (put k v ttl now c) = (v, put k v ttl now c))
       \<and> (now + ttl * 1000 < now' \<longrightarrow>
            get k now' (put k v ttl now c) = (JNull, AList.delete k (put k v ttl now c))
            \<and> k \<notin> fst ` set (AList.delete k (put k v ttl now c)))
       \<and> (\<forall>e. map_of c k = Some e \<and> until e < now' \<longrightarrow>
            get k now' c = (JNull, AList.delete k c) \<and> k \<notin> fst ` set (AList.delete k c))
       \<and> (k \<notin> fst ` set c \<longrightarrow> get k now' c = (JNull, c))"
proof -
  have len: "length c \<le> CACHE_MAX"
    using assms by (simp add: cache_inv_def)
  have m: "map_of (put k v ttl now c) k = Some \<lparr>data = v, until = now + ttl * 1000\<rparr>"
    using len by (rule map_of_put_same)
  have fresh: "now' \<le> now + ttl * 1000 \<Longrightarrow>
      get k now' (put k v ttl now c) = (v, put k v ttl now c)" for now'
    by (simp add: get_def m)
  have stale: "now + ttl * 1000 < now' \<Longrightarrow>
      get k now' (put k v ttl now c) = (JNull, AList.delete k (put k v ttl now c))"
    by (simp add: get_def m)
  have absent: "k \<notin> fst ` set c \<Longrightarrow> get k now' c = (JNull, c)"
    using map_of_eq_None_iff [of c k] by (simp add: get_def)
  show ?thesis
    using fresh [of now] fresh [of now'] stale absent delete_notin_dom [of k]
    by (auto simp: get_def)
qed

theorem cache_put_get_witness:
  "cache_inv []
   \<and> get ''details:ChIJabc:id'' 5 (put ''details:ChIJabc:id'' (JStr ''x'') 3600 5 [])
       = (JStr ''x'', put ''details:ChIJabc:id'' (JStr ''x'') 3600 5 [])
   \<and> get ''details:ChIJabc:id'' 3600006 (put ''details:ChIJabc:id'' (JStr ''x'') 3600 5 [])
       = (JNull, AList.delete ''details:ChIJabc:id'' (put ''details:ChIJabc:id'' (JStr ''x'') 3600 5 []))
   \<and> get ''details:ChIJabc:id'' 3600006 [] = (JNull, [])"
  using cache_put_get [OF cache_inv_empty, of 3600 "''details:ChIJabc:id''" 5 "JStr ''x''" 3600006]
  by (simp add: cache_inv_empty)

section \<open>Capacity eviction\<close>

text \<open>
  Claim C3. \<open>put\<close> keeps the state invariant, so the cache never holds more than
  \<^const>\<open>CACHE_MAX\<close> entries. When \<open>put\<close> adds a new key to a cache that already holds
  \<^const>\<open>CACHE_MAX\<close> entries, exactly the first entry in insertion order is removed and
  every other entry survives, in order, followed by the new one. When the key is
  already present or the cache is below the cap, nothing is removed.
\<close>

theorem put_capacity_eviction:
  assumes "cache_inv c"
  shows "cache_inv (put k v ttl now c)
       \<and> length (put k v ttl now c) \<le> CACHE_MAX
       \<and> (k \<notin> fst ` set c \<and> length c = CACHE_MAX \<longrightarrow>
            c = hd c # tl c
            \<and> put k v ttl now c = tl c @ [(k, \<lparr>data = v, until = now + ttl * 1000\<rparr>)]
            \<and> fst (hd c) \<notin> fst ` set (put k v ttl now c))
       \<and> (k \<in> fst ` set c \<or> length c < CACHE_MAX \<longrightarrow>
            put k v ttl now c = AList.update k \<lparr>data = v, until = now + ttl * 1000\<rparr> c)"
proof -
  have inv: "cache_inv (put k v ttl now c)"
    using assms by (rule cache_inv_put)
  have evict: "c = hd c # tl c
      \<and> put k v ttl now c = tl c @ [(k, \<lparr>data = v, until = now + ttl * 1000\<rparr>)]
      \<and> fst (hd c) \<notin> fst ` set (put k v ttl now c)"
    if new: "k \<notin> fst ` set c" and full: "length c = CACHE_MAX"
  proof -
    from full have ne: "c = hd c # tl c"
      by (cases c) (auto simp: CACHE_MAX_def)
    have p: "put k v ttl now c = tl c @ [(k, \<lparr>data = v, until = now + ttl * 1000\<rparr>)]"
      using assms new full by (intro put_evict) (auto simp: cache_inv_def)
    have "distinct (map fst (hd c # tl c))"
      using assms ne by (simp add: cache_inv_def)
    then have "fst (hd c) \<notin> fst ` set (tl c)"
      by simp
    moreover have "fst (hd c) \<noteq> k"
      using new ne by (metis image_eqI list.set_intros(1))
    ultimately have "fst (hd c) \<notin> fst ` set (tl c @ [(k, \<lparr>data = v, until = now + ttl * 1000\<rparr>)])"
      by auto
    with ne p show ?thesis
      by presburger
  qed
  have keep: "put k v ttl now c = AList.update k \<lparr>data = v, until = now + ttl * 1000\<rparr> c"
    if "k \<in> fst ` set c \<or> length c < CACHE_MAX"
    using that assms by (intro put_no_evict) (auto simp: cache_inv_def)
  have len: "length (put k v ttl now c) \<le> CACHE_MAX"
    using inv by (simp add: cache_inv_def)
  show ?thesis
    using inv len evict keep by blast
qed

theorem put_capacity_eviction_witness:
  "cache_inv full_cache \<and> ''b'' \<notin> fst ` set full_cache \<and> length full_cache = CACHE_MAX
   \<and> length (put ''b'' (JStr ''x'') 3600 5 full_cache) \<le> CACHE_MAX
   \<and> put ''b'' (JStr ''x'') 3600 5 full_cache
       = tl full_cache @ [(''b'', \<lparr>data = JStr ''x'', until = 5 + 3600 * 1000\<rparr>)]
   \<and> fst (hd full_cache) \<notin> fst ` set (put ''b'' (JStr ''x'') 3600 5 full_cache)"
  using put_capacity_eviction [OF full_cache_inv, of "''b''" "JStr ''x''" 3600 5]
    full_cache_inv full_cache_fresh full_cache_length
  by blast

section \<open>The dispatcher's checks\<close>

text \<open>
  Claim C7. A request with method \<^verbatim>\<open>OPTIONS\<close> is answered 204 before the action is
  read. For every other request whose action is outside the allow-list, both handlers
  answer 400 \<^verbatim>\<open>invalid_action\<close> and leave the world as it was, whatever the gateway
  key, the shared secret and the provider key are: the action is checked first.
\<close>

theorem invalid_action_rejected:
  assumes "req_method req \<noteq> ''OPTIONS''" and "action_of req \<notin> ALLOWED"
  shows "handler env req w = (respond 400 (ErrorCode ''invalid_action''), w)
       \<and> handler_plain env req w = (respond 400 (ErrorCode ''invalid_action''), w)"
  using assms by (simp add: handler_def handler_plain_def)

theorem invalid_action_rejected_witness:
  "req_method delete_request \<noteq> ''OPTIONS'' \<and> action_of delete_request \<notin> ALLOWED
   \<and> handler sample_env delete_request fresh_world
       = (respond 400 (ErrorCode ''invalid_action''), fresh_world)
   \<and> handler_plain sample_env delete_request fresh_world
       = (respond 400 (ErrorCode ''invalid_action''), fresh_world)"
proof -
  have m: "req_method delete_request \<noteq> ''OPTIONS''"
    by (simp add: delete_request_def)
  have a: "action_of delete_request \<notin> ALLOWED"
    by (simp add: delete_request_def action_of_def present_def body_or_empty_def ALLOWED_def)
  show ?thesis
    using m a invalid_action_rejected [OF m a, of sample_env fresh_world] by simp
qed

text \<open>
  The claim as it is written fails on a CORS preflight: the action \<open>deletePlace\<close> is
  not allowed, and the answer is 204 with no body.
\<close>

theorem invalid_action_preflight_counterexample:
  "action_of preflight_request \<notin> ALLOWED
   \<and> handler sample_env preflight_request fresh_world = (respond 204 NoContent, fresh_world)
   \<and> handler_plain sample_env preflight_request fresh_world = (respond 204 NoContent, fresh_world)
   \<and> respond 204 NoContent \<noteq> respond 400 (ErrorCode ''invalid_action'')"
  by (simp add: preflight_request_def action_of_def present_def body_or_empty_def ALLOWED_def
      handler_def handler_plain_def respond_def)

text \<open>
  Claim C8. For every request other than a preflight whose action is allowed: when the
  shared secret is unset (or empty), or the \<^verbatim>\<open>x-gateway-key\<close> header is missing or differs
  from it, both handlers answer 401 \<^verbatim>\<open>unauthorized\<close>, and the log of outbound calls is
  what it was.
\<close>

theorem unauthorized_rejected:
  assumes "req_method req \<noteq> ''OPTIONS''" and "action_of req \<in> ALLOWED"
    and "GATEWAY_TOKEN env = None \<or> GATEWAY_TOKEN env = Some []
         \<or> req_gateway_key req \<noteq> GATEWAY_TOKEN env"
  shows "handler env req w = (respond 401 (ErrorCode ''unauthorized''), w)
       \<and> handler_plain env req w = (respond 401 (ErrorCode ''unauthorized''), w)
       \<and> calls (snd (handler env req w)) = calls w
       \<and> calls (snd (handler_plain env req w)) = calls w"
proof -
  have "unauthorized env req"
    using assms(3) by (auto simp: unauthorized_def present_def)
  then show ?thesis
    using assms(1,2) by (simp add: handler_def handler_plain_def)
qed

theorem unauthorized_rejected_witness:
  "req_method details_no_key \<noteq> ''OPTIONS'' \<and> action_of details_no_key \<in> ALLOWED
   \<and> req_gateway_key details_no_key \<noteq> GATEWAY_TOKEN sample_env
   \<and> handler sample_env details_no_key fresh_world
       = (respond 401 (ErrorCode ''unauthorized''), fresh_world)
   \<and> handler_plain sample_env details_no_key fresh_world
       = (respond 401 (ErrorCode ''unauthorized''), fresh_world)
   \<and> calls (snd (handler sample_env details_no_key fresh_world)) = calls fresh_world"
proof -
  have m: "req_method details_no_key \<noteq> ''OPTIONS''"
    by (simp add: details_no_key_def)
  have a: "action_of details_no_key \<in> ALLOWED"
    by (simp add: details_no_key_def action_of_def present_def body_or_empty_def ALLOWED_def)
  have k: "req_gateway_key details_no_key \<noteq> GATEWAY_TOKEN sample_env"
    by (simp add: details_no_key_def sample_env_def)
  show ?thesis
    using m a k unauthorized_rejected [of details_no_key sample_env fresh_world] by simp
qed

text \<open>
  The claim as it is written fails on a preflight for an allowed action, which carries
  no \<^verbatim>\<open>x-gateway-key\<close>: the answer is 204.
\<close>

theorem unauthorized_preflight_counterexample:
  "action_of details_preflight \<in> ALLOWED
   \<and> req_gateway_key details_preflight = None
   \<and> handler sample_env details_preflight fresh_world = (respond 204 NoContent, fresh_world)
   \<and> handler_plain sample_env details_preflight fresh_world = (respond 204 NoContent, fresh_world)
   \<and> respond 204 NoContent \<noteq> respond 401 (ErrorCode ''unauthorized'')"
  by (simp add: details_preflight_def action_of_def present_def body_or_empty_def ALLOWED_def
      handler_def handler_plain_def respond_def)

section \<open>The bound on the batch size\<close>

lemma batchDetails_too_many:
  "b_placeIds b = Some (IdArray ids) \<Longrightarrow> length ids > 50 \<Longrightarrow>
   batchDetails env k b w = (respond 400 (ErrorCode ''too_many_placeIds_max_50''), w)
   \<and> batchDetails_plain env k b w = (respond 400 (ErrorCode ''too_many_placeIds_max_50''), w)"
  by (auto simp: batchDetails_def batchDetails_plain_def Let_def)

lemma batchDetails_required:
  "b_placeIds b = None \<or> b_placeIds b = Some NotAnArray \<or> b_placeIds b = Some (IdArray []) \<Longrightarrow>
   batchDetails env k b w = (respond 400 (ErrorCode ''placeIds_required''), w)
   \<and> batchDetails_plain env k b w = (respond 400 (ErrorCode ''placeIds_required''), w)"
  by (auto simp: batchDetails_def batchDetails_plain_def Let_def)

lemma handler_routes_batch:
  assumes "req_method req \<noteq> ''OPTIONS''" "action_of req = ''batchDetails''"
    "\<not> unauthorized env req" "present (GOOGLE_PLACES_API_KEY env)"
  shows "handler env req w
          = batchDetails env (the (GOOGLE_PLACES_API_KEY env)) (body_or_empty req) w"
    and "handler_plain env req w
          = batchDetails_plain env (the (GOOGLE_PLACES_API_KEY env)) (body_or_empty req) w"
  using assms by (simp_all add: handler_def handler_plain_def ALLOWED_def)

lemma handler_batch_or_unchanged:
  assumes "action_of req = ''batchDetails''"
  shows "handler env req w
          = batchDetails env (the (GOOGLE_PLACES_API_KEY env)) (body_or_empty req) w
         \<or> snd (handler env req w) = w"
    and "handler_plain env req w
          = batchDetails_plain env (the (GOOGLE_PLACES_API_KEY env)) (body_or_empty req) w
         \<or> snd (handler_plain env req w) = w"
  using assms by (auto simp: handler_def handler_plain_def ALLOWED_def Let_def)

lemma batch_rejected_early:
  assumes "action_of req = ''batchDetails''"
    and "(\<exists>ids. b_placeIds (body_or_empty req) = Some (IdArray ids) \<and> length ids > 50 \<and> code = ''too_many_placeIds_max_50'')
         \<or> ((b_placeIds (body_or_empty req) = None \<or> b_placeIds (body_or_empty req) = Some NotAnArray
              \<or> b_placeIds (body_or_empty req) = Some (IdArray [])) \<and> code = ''placeIds_required'')"
  shows "(req_method req \<noteq> ''OPTIONS'' \<and> \<not> unauthorized env req
          \<and> present (GOOGLE_PLACES_API_KEY env) \<longrightarrow>
            handler env req w = (respond 400 (ErrorCode code), w)
            \<and> handler_plain env req w = (respond 400 (ErrorCode code), w))
       \<and> calls (snd (handler env req w)) = calls w
       \<and> calls (snd (handler_plain env req w)) = calls w"
proof -
  let ?b = "body_or_empty req" and ?k = "the (GOOGLE_PLACES_API_KEY env)"
  have b: "batchDetails env ?k ?b w = (respond 400 (ErrorCode code), w)
      \<and> batchDetails_plain env ?k ?b w = (respond 400 (ErrorCode code), w)"
    using assms(2) batchDetails_too_many [of ?b _ env ?k w] batchDetails_required [of ?b env ?k w]
    by blast
  have gated: "handler env req w = (respond 400 (ErrorCode code), w)
      \<and> handler_plain env req w = (respond 400 (ErrorCode code), w)"
    if "req_method req \<noteq> ''OPTIONS''" "\<not> unauthorized env req" "present (GOOGLE_PLACES_API_KEY env)"
    using handler_routes_batch [OF that(1) assms(1) that(2,3)] b by simp
  have "snd (handler env req w) = w"
    using handler_batch_or_unchanged(1) [OF assms(1), of env w] b by auto
  moreover have "snd (handler_plain env req w) = w"
    using handler_batch_or_unchanged(2) [OF assms(1), of env w] b by auto
  ultimately show ?thesis
    using gated by simp
qed

text \<open>
  Claim C9. For every \<^verbatim>\<open>batchDetails\<close> request that is not a preflight, carries the right
  gateway key and finds the provider key configured: more than 50 identifiers are
  answered 400 \<^verbatim>\<open>too_many_placeIds_max_50\<close>, and a \<^verbatim>\<open>placeIds\<close> that is absent, not an
  array or empty is answered 400 \<^verbatim>\<open>placeIds_required\<close>, the world unchanged. For every
  \<^verbatim>\<open>batchDetails\<close> request with such a \<^verbatim>\<open>placeIds\<close>, whatever the checks before say, the
  log of outbound calls is what it was.
\<close>

theorem batch_size_bound:
  assumes "action_of req = ''batchDetails''" and "b_placeIds (body_or_empty req) = p"
  shows
    "((\<exists>ids. p = Some (IdArray ids) \<and> length ids > 50) \<longrightarrow>
        (req_method req \<noteq> ''OPTIONS'' \<and> \<not> unauthorized env req
           \<and> present (GOOGLE_PLACES_API_KEY env) \<longrightarrow>
           handler env req w = (respond 400 (ErrorCode ''too_many_placeIds_max_50''), w)
           \<and> handler_plain env req w = (respond 400 (ErrorCode ''too_many_placeIds_max_50''), w))
        \<and> calls (snd (handler env req w)) = calls w
        \<and> calls (snd (handler_plain env req w)) = calls w)
   \<and> (p = None \<or> p = Some NotAnArray \<or> p = Some (IdArray []) \<longrightarrow>
        (req_method req \<noteq> ''OPTIONS'' \<and> \<not> unauthorized env req
           \<and> present (GOOGLE_PLACES_API_KEY env) \<longrightarrow>
           handler env req w = (respond 400 (ErrorCode ''placeIds_required''), w)
           \<and> handler_plain env req w = (respond 400 (ErrorCode ''placeIds_required''), w))
        \<and> calls (snd (handler env req w)) = calls w
        \<and> calls (snd (handler_plain env req w)) = calls w)"
proof (intro conjI impI)
  assume "\<exists>ids. p = Some (IdArray ids) \<and> length ids > 50"
  then have c: "(\<exists>ids. b_placeIds (body_or_empty req) = Some (IdArray ids) \<and> length ids > 50
        \<and> ''too_many_placeIds_max_50'' = ''too_many_placeIds_max_50'')
      \<or> ((b_placeIds (body_or_empty req) = None \<or> b_placeIds (body_or_empty req) = Some NotAnArray
           \<or> b_placeIds (body_or_empty req) = Some (IdArray []))
          \<and> ''too_many_placeIds_max_50'' = ''placeIds_required'')"
    using assms(2) by simp
  note R = batch_rejected_early [OF assms(1) c, of env w]
  from R show "calls (snd (handler env req w)) = calls w"
    and "calls (snd (handler_plain env req w)) = calls w"
    by blast+
  assume "req_method req \<noteq> ''OPTIONS'' \<and> \<not> unauthorized env req
      \<and> present (GOOGLE_PLACES_API_KEY env)"
  with R show "handler env req w = (respond 400 (ErrorCode ''too_many_placeIds_max_50''), w)"
    and "handler_plain env req w = (respond 400 (ErrorCode ''too_many_placeIds_max_50''), w)"
    by blast+
next
  assume "p = None \<or> p = Some NotAnArray \<or> p = Some (IdArray [])"
  then have c: "(\<exists>ids. b_placeIds (body_or_empty req) = Some (IdArray ids) \<and> length ids > 50
        \<and> ''placeIds_required'' = ''too_many_placeIds_max_50'')
      \<or> ((b_placeIds (body_or_empty req) = None \<or> b_placeIds (body_or_empty req) = Some NotAnArray
           \<or> b_placeIds (body_or_empty req) = Some (IdArray []))
          \<and> ''placeIds_required'' = ''placeIds_required'')"
    using assms(2) by simp
  note R = batch_rejected_early [OF assms(1) c, of env w]
  from R show "calls (snd (handler env req w)) = calls w"
    and "calls (snd (handler_plain env req w)) = calls w"
    by blast+
  assume "req_method req \<noteq> ''OPTIONS'' \<and> \<not> unauthorized env req
      \<and> present (GOOGLE_PLACES_API_KEY env)"
  with R show "handler env req w = (respond 400 (ErrorCode ''placeIds_required''), w)"
    and "handler_plain env req w = (respond 400 (ErrorCode ''placeIds_required''), w)"
    by blast+
qed

lemma batch_request_action: "action_of (batch_request gw ids flds) = ''batchDetails''"
  by (simp add: batch_request_def action_of_def present_def body_or_empty_def)

lemma batch_request_placeIds: "b_placeIds (body_or_empty (batch_request gw ids flds)) = ids"
  by (simp add: batch_request_def body_or_empty_def)

theorem batch_size_bound_witness:
  "action_of (batch_request (Some ''s3cret'') (Some (IdArray (replicate 51 ''ChIJabc''))) None)
     = ''batchDetails''
   \<and> length (replicate 51 ''ChIJabc'') > 50
   \<and> req_method (batch_request (Some ''s3cret'') (Some (IdArray (replicate 51 ''ChIJabc''))) None)
       \<noteq> ''OPTIONS''
   \<and> \<not> unauthorized sample_env
         (batch_request (Some ''s3cret'') (Some (IdArray (replicate 51 ''ChIJabc''))) None)
   \<and> present (GOOGLE_PLACES_API_KEY sample_env)
   \<and> handler sample_env
        (batch_request (Some ''s3cret'') (Some (IdArray (replicate 51 ''ChIJabc''))) None) fresh_world
       = (respond 400 (ErrorCode ''too_many_placeIds_max_50''), fresh_world)
   \<and> handler_plain sample_env
        (batch_request (Some ''s3cret'') (Some (IdArray (replicate 51 ''ChIJabc''))) None) fresh_world
       = (respond 400 (ErrorCode ''too_many_placeIds_max_50''), fresh_world)
   \<and> calls (snd (handler sample_env
        (batch_request (Some ''s3cret'') (Some (IdArray (replicate 51 ''ChIJabc''))) None) fresh_world))
       = calls fresh_world
   \<and> handler sample_env (batch_request (Some ''s3cret'') (Some NotAnArray) None) fresh_world
       = (respond 400 (ErrorCode ''placeIds_required''), fresh_world)"
proof -
  let ?req = "batch_request (Some ''s3cret'') (Some (IdArray (replicate 51 ''ChIJabc''))) None"
  let ?req' = "batch_request (Some ''s3cret'') (Some NotAnArray) None"
  have a: "action_of ?req = ''batchDetails''" "action_of ?req' = ''batchDetails''"
    by (rule batch_request_action)+
  have p: "b_placeIds (body_or_empty ?req) = Some (IdArray (replicate 51 ''ChIJabc''))"
    "b_placeIds (body_or_empty ?req') = Some NotAnArray"
    by (rule batch_request_placeIds)+
  have n: "length (replicate 51 ''ChIJabc'') > 50"
    by simp
  have g: "req_method ?req \<noteq> ''OPTIONS''" "\<not> unauthorized sample_env ?req"
    "req_method ?req' \<noteq> ''OPTIONS''" "\<not> unauthorized sample_env ?req'"
    "present (GOOGLE_PLACES_API_KEY sample_env)"
    by (simp_all add: batch_request_def sample_env_def unauthorized_def present_def)
  show ?thesis
    using a n g
      batch_size_bound [OF a(1) p(1), of sample_env fresh_world]
      batch_size_bound [OF a(2) p(2), of sample_env fresh_world]
    by blast
qed

text \<open>
  The claim as it is written fails on a batch of 51 identifiers that does not pass the
  checks before the size check: sent without the gateway key it is answered 401, sent
  while the provider key is not configured it is answered 500, and as a preflight it is
  answered 204.
\<close>

theorem batch_size_bound_counterexample:
  "action_of (batch_request None (Some (IdArray (replicate 51 ''ChIJabc''))) None) = ''batchDetails''
   \<and> length (replicate 51 ''ChIJabc'') > 50
   \<and> handler sample_env
        (batch_request None (Some (IdArray (replicate 51 ''ChIJabc''))) None) fresh_world
       = (respond 401 (ErrorCode ''unauthorized''), fresh_world)
   \<and> handler_plain sample_env
        (batch_request None (Some (IdArray (replicate 51 ''ChIJabc''))) None) fresh_world
       = (respond 401 (ErrorCode ''unauthorized''), fresh_world)
   \<and> respond 401 (ErrorCode ''unauthorized'') \<noteq> respond 400 (ErrorCode ''too_many_placeIds_max_50'')
   \<and> handler keyless_env
        (batch_request (Some ''s3cret'') (Some (IdArray (replicate 51 ''ChIJabc''))) None) fresh_world
       = (respond 500 (ErrorCode ''missing_google_api_key''), fresh_world)
   \<and> action_of batch_preflight = ''batchDetails''
   \<and> handler sample_env batch_preflight fresh_world = (respond 204 NoContent, fresh_world)"
proof -
  let ?req = "batch_request None (Some (IdArray (replicate 51 ''ChIJabc''))) None"
  let ?req' = "batch_request (Some ''s3cret'') (Some (IdArray (replicate 51 ''ChIJabc''))) None"
  have a: "action_of ?req = ''batchDetails''" "action_of ?req' = ''batchDetails''"
    by (rule batch_request_action)+
  have u: "unauthorized sample_env ?req" and m: "req_method ?req \<noteq> ''OPTIONS''"
    by (simp_all add: unauthorized_def sample_env_def batch_request_def)
  have h: "handler sample_env ?req fresh_world = (respond 401 (ErrorCode ''unauthorized''), fresh_world)"
    "handler_plain sample_env ?req fresh_world
      = (respond 401 (ErrorCode ''unauthorized''), fresh_world)"
    using a u m by (simp_all add: handler_def handler_plain_def ALLOWED_def)
  have u': "\<not> unauthorized keyless_env ?req'" and m': "req_method ?req' \<noteq> ''OPTIONS''"
    and g': "\<not> present (GOOGLE_PLACES_API_KEY keyless_env)"
    by (simp_all add: unauthorized_def keyless_env_def batch_request_def present_def)
  have k: "handler keyless_env ?req' fresh_world
      = (respond 500 (ErrorCode ''missing_google_api_key''), fresh_world)"
    using a u' m' g' by (simp add: handler_def ALLOWED_def)
  have p: "action_of batch_preflight = ''batchDetails''"
    "handler sample_env batch_preflight fresh_world = (respond 204 NoContent, fresh_world)"
    by (simp_all add: batch_preflight_def action_of_def present_def handler_def)
  show ?thesis
    using a h k p by (simp add: respond_def)
qed

section \<open>Cache keys\<close>

lemma sort_permutation:
  fixes xs ys :: "string list"
  assumes "mset xs = mset ys"
  shows "sort xs = sort ys"
  using assms by (intro properties_for_sort) simp_all

text \<open>
  Claim C5. Two field lists that are permutations of each other give the same cache key
  for the same identifier, in both handlers: the list is sorted before it is joined.
\<close>

theorem cache_key_order_independent:
  assumes "mset fs1 = mset fs2"
  shows "cacheKey rawId fs1 = cacheKey rawId fs2 \<and> cacheKey_plain pid fs1 = cacheKey_plain pid fs2"
  using sort_permutation [OF assms] by (simp add: cacheKey_def cacheKey_plain_def)

theorem cache_key_order_independent_witness:
  "mset [''rating'', ''id''] = mset [''id'', ''rating'']
   \<and> cacheKey ''ChIJabc'' [''rating'', ''id''] = cacheKey ''ChIJabc'' [''id'', ''rating'']
   \<and> cacheKey_plain ''ChIJabc'' [''rating'', ''id''] = cacheKey_plain ''ChIJabc'' [''id'', ''rating'']"
proof -
  have p: "mset [''rating'', ''id''] = mset [''id'', ''rating'']"
    by (simp add: add_mset_commute)
  show ?thesis
    using p cache_key_order_independent [OF p, of "''ChIJabc''" "''ChIJabc''"] by simp
qed

lemma batch_start_normalised:
  "map normalizeId ids1 = map normalizeId ids2 \<Longrightarrow>
   batch_start env k fs ids1 w = batch_start env k fs ids2 w"
proof (induction ids1 arbitrary: ids2 w)
  case Nil
  then show ?case by simp
next
  case (Cons a ids1)
  then obtain b ids2' where ids2: "ids2 = b # ids2'" and ab: "normalizeId a = normalizeId b"
    and rest: "map normalizeId ids1 = map normalizeId ids2'"
    by (cases ids2) auto
  have "batch_item_start env k fs a w = batch_item_start env k fs b w"
    using ab by (simp add: batch_item_start_def)
  then show ?case
    using Cons.IH [OF rest] ids2 by (simp split: prod.splits)
qed

lemma batchDetails_normalised:
  assumes "map normalizeId ids1 = map normalizeId ids2"
  shows "batchDetails env k (b\<lparr>b_placeIds := Some (IdArray ids1)\<rparr>) w
       = batchDetails env k (b\<lparr>b_placeIds := Some (IdArray ids2)\<rparr>) w"
proof -
  have "length ids1 = length ids2"
    using assms by (metis length_map)
  then show ?thesis
    using batch_start_normalised [OF assms] by (simp add: batchDetails_def)
qed

lemma cacheKey_plain_differs: "cacheKey_plain (''places/'' @ rid) fs \<noteq> cacheKey_plain rid fs"
proof
  assume "cacheKey_plain (''places/'' @ rid) fs = cacheKey_plain rid fs"
  then have "length (cacheKey_plain (''places/'' @ rid) fs) = length (cacheKey_plain rid fs)"
    by simp
  then show False
    by (simp add: cacheKey_plain_def)
qed

text \<open>
  Claim C4. In the handler of \<^verbatim>\<open>api/places.ts\<close>, an identifier in raw form (one that
  does not itself start with \<^verbatim>\<open>places/\<close>) and the same identifier with the prefix
  \<^verbatim>\<open>places/\<close> normalise to the raw form, give the same cache key and the same outbound
  call, and a details request (identifier not empty) or a batch request behaves the same
  with either form. The second handler does not normalise: the two forms give different
  cache keys there.
\<close>

theorem identifier_normalised:
  assumes "\<forall>i \<in> set (rid # ids). \<not> prefix ''places/'' i"
  shows "normalizeId (''places/'' @ rid) = rid \<and> normalizeId rid = rid
       \<and> cacheKey (normalizeId (''places/'' @ rid)) fs = cacheKey (normalizeId rid) fs
       \<and> details_call k (normalizeId (''places/'' @ rid)) fs = details_call k (normalizeId rid) fs
       \<and> (rid \<noteq> [] \<longrightarrow> details env k (b\<lparr>b_placeId := Some (''places/'' @ rid)\<rparr>) w
                       = details env k (b\<lparr>b_placeId := Some rid\<rparr>) w)
       \<and> batchDetails env k (b\<lparr>b_placeIds := Some (IdArray (map ((@) ''places/'') (rid # ids)))\<rparr>) w
          = batchDetails env k (b\<lparr>b_placeIds := Some (IdArray (rid # ids))\<rparr>) w
       \<and> cacheKey_plain (''places/'' @ rid) fs \<noteq> cacheKey_plain rid fs"
proof -
  have n: "normalizeId (''places/'' @ rid) = rid" "normalizeId rid = rid"
    using assms by (simp_all add: normalizeId_def)
  have d: "details env k (b\<lparr>b_placeId := Some (''places/'' @ rid)\<rparr>) w
         = details env k (b\<lparr>b_placeId := Some rid\<rparr>) w" if "rid \<noteq> []"
    using that n unfolding details_def by (simp add: present_def)
  have "map normalizeId (map ((@) ''places/'') (rid # ids)) = map normalizeId (rid # ids)"
    using assms by (simp add: normalizeId_def)
  then have bt: "batchDetails env k (b\<lparr>b_placeIds := Some (IdArray (map ((@) ''places/'') (rid # ids)))\<rparr>) w
          = batchDetails env k (b\<lparr>b_placeIds := Some (IdArray (rid # ids))\<rparr>) w"
    by (rule batchDetails_normalised)
  show ?thesis
    using n d bt cacheKey_plain_differs [of rid fs] by simp
qed

theorem identifier_normalised_witness:
  "\<not> prefix ''places/'' ''ChIJabc'' \<and> \<not> prefix ''places/'' ''ChIJxyz''
   \<and> cacheKey (normalizeId ''places/ChIJabc'') [''id''] = cacheKey (normalizeId ''ChIJabc'') [''id'']
   \<and> details sample_env ''gk'' (empty_body\<lparr>b_placeId := Some ''places/ChIJabc''\<rparr>) fresh_world
       = details sample_env ''gk'' (empty_body\<lparr>b_placeId := Some ''ChIJabc''\<rparr>) fresh_world
   \<and> batchDetails sample_env ''gk''
        (empty_body\<lparr>b_placeIds := Some (IdArray [''places/ChIJabc'', ''places/ChIJxyz''])\<rparr>) fresh_world
       = batchDetails sample_env ''gk''
        (empty_body\<lparr>b_placeIds := Some (IdArray [''ChIJabc'', ''ChIJxyz''])\<rparr>) fresh_world"
proof -
  have q: "\<forall>i \<in> set [''ChIJabc'', ''ChIJxyz'']. \<not> prefix ''places/'' i"
    by simp
  show ?thesis
    using q identifier_normalised [OF q, of "[''id'']" "''gk''" sample_env empty_body fresh_world]
    by simp
qed

text \<open>
  The claim as it is written fails on the second handler: after a details request for
  \<open>ChIJabc\<close> has filled the cache, the request for \<open>places/ChIJabc\<close> with the same field
  list misses it and calls the provider again.
\<close>

theorem identifier_not_normalised_counterexample:
  "cacheKey_plain ''ChIJabc'' [''id''] = ''details:ChIJabc:id''
   \<and> cacheKey_plain ''places/ChIJabc'' [''id''] = ''details:places/ChIJabc:id''
   \<and> res_payload (fst (handler_plain sample_env (details_request ''places/ChIJabc'' (Some [''id'']))
        (snd (handler_plain sample_env (details_request ''ChIJabc'' (Some [''id''])) fresh_world))))
       = DetailsData sample_place False
   \<and> length (calls (snd (handler_plain sample_env (details_request ''places/ChIJabc'' (Some [''id'']))
        (snd (handler_plain sample_env (details_request ''ChIJabc'' (Some [''id''])) fresh_world))))) = 2"
  by code_simp

section \<open>The field-mask fallback\<close>

lemma details_finish_calls: "calls (snd (details_finish ck r w)) = calls w"
  by (simp add: details_finish_def split: sum.splits)

lemma details_finish_not_ok:
  "\<not> r_ok r \<Longrightarrow> fst (details_finish ck r w) = respond (r_status r) (GoogleError (r_text r))"
  by (simp add: details_finish_def)

lemma batch_item_finish_calls: "calls (snd (batch_item_finish rawId ck r w)) = calls w"
  by (simp add: batch_item_finish_def split: sum.splits)

lemma batch_item_finish_not_ok:
  "\<not> r_ok r \<Longrightarrow>
   fst (batch_item_finish rawId ck r w) = Settled (ItemError rawId (r_status r) (r_text r))"
  by (simp add: batch_item_finish_def)

lemma details_retry:
  assumes "present (b_placeId b)"
    and "rawId = normalizeId (the (b_placeId b))"
    and "flds = (case b_fields b of None \<Rightarrow> DEFAULT_FIELDS | Some f \<Rightarrow> f)"
    and "uri_ok rawId" and "uri_ok (join '','' flds)"
    and "\<not> truthy (fst (get (cacheKey rawId flds) (clock w) (CACHE w)))"
    and "fetch env (calls w) (details_call k rawId flds) = Resolves r1"
    and "r_status r1 = 400" and "field_mask_error (r_text r1)"
  shows "calls (snd (details env k b w))
          = calls w @ [details_call k rawId flds, details_call k rawId DEFAULT_FIELDS]"
    and "fetch env (calls w @ [details_call k rawId flds]) (details_call k rawId DEFAULT_FIELDS) = Resolves r2
         \<Longrightarrow> \<not> r_ok r2 \<Longrightarrow> fst (details env k b w) = respond (r_status r2) (GoogleError (r_text r2))"
  using assms
  by (auto simp: details_def Let_def do_fetch_def r_ok_def details_finish_calls details_finish_not_ok
      build_details_call_ok default_fields_ok split: prod.splits fetch_result.splits)

lemma details_no_retry:
  assumes "present (b_placeId b)"
    and "rawId = normalizeId (the (b_placeId b))"
    and "flds = (case b_fields b of None \<Rightarrow> DEFAULT_FIELDS | Some f \<Rightarrow> f)"
    and "uri_ok rawId" and "uri_ok (join '','' flds)"
    and "\<not> truthy (fst (get (cacheKey rawId flds) (clock w) (CACHE w)))"
    and "fetch env (calls w) (details_call k rawId flds) = Resolves r1"
    and "\<not> r_ok r1" and "\<not> (r_status r1 = 400 \<and> field_mask_error (r_text r1))"
  shows "calls (snd (details env k b w)) = calls w @ [details_call k rawId flds]"
    and "fst (details env k b w) = respond (r_status r1) (GoogleError (r_text r1))"
  using assms
  by (auto simp: details_def Let_def do_fetch_def build_details_call_ok split: prod.splits)

lemma batch_item_start_miss:
  assumes "\<not> truthy (fst (get (cacheKey (normalizeId pid) flds) (clock w) (CACHE w)))"
    and "uri_ok (normalizeId pid)" and "uri_ok (join '','' flds)"
  shows "batch_item_start env k flds pid w
         = (Pending (normalizeId pid) (cacheKey (normalizeId pid) flds)
              (fetch env (calls w) (details_call k (normalizeId pid) flds))
              (elapsed env (calls w) (details_call k (normalizeId pid) flds)),
            w\<lparr>CACHE := snd (get (cacheKey (normalizeId pid) flds) (clock w) (CACHE w)),
               calls := calls w @ [details_call k (normalizeId pid) flds]\<rparr>)"
  using assms
  by (auto simp: batch_item_start_def Let_def build_details_call_ok split: prod.splits)

lemma batch_item_retry:
  assumes "r_status r1 = 400" and "field_mask_error (r_text r1)" and "uri_ok rawId"
  shows "calls (snd (batch_item_resume env k rawId ck (Resolves r1) d w))
          = calls w @ [details_call k rawId DEFAULT_FIELDS]"
    and "fetch env (calls w) (details_call k rawId DEFAULT_FIELDS) = Resolves r2 \<Longrightarrow> \<not> r_ok r2 \<Longrightarrow>
         fst (batch_item_resume env k rawId ck (Resolves r1) d w)
          = Settled (ItemError rawId (r_status r2) (r_text r2))"
  using assms
  by (auto simp: batch_item_resume_def Let_def do_fetch_def r_ok_def batch_item_finish_calls
      batch_item_finish_not_ok build_details_call_ok default_fields_ok
      split: prod.splits fetch_result.splits)

lemma batch_item_no_retry:
  assumes "\<not> r_ok r1" and "\<not> (r_status r1 = 400 \<and> field_mask_error (r_text r1))"
  shows "batch_item_resume env k rawId ck (Resolves r1) d w
          = (Settled (ItemError rawId (r_status r1) (r_text r1)), w\<lparr>clock := clock w + int d\<rparr>)"
  using assms by (auto simp: batch_item_resume_def Let_def)

lemma details_plain_no_retry:
  assumes "present (b_placeId b)"
    and "pid = the (b_placeId b)"
    and "flds = (case b_fields b of None \<Rightarrow> DEFAULT_FIELDS_plain | Some f \<Rightarrow> f)"
    and "uri_ok pid" and "uri_ok (join '','' (sort flds))"
    and "\<not> truthy (fst (get (cacheKey_plain pid flds) (clock w) (CACHE w)))"
    and "fetch env (calls w) (details_call k pid (sort flds)) = Resolves r1"
    and "\<not> r_ok r1"
  shows "calls (snd (details_plain env k b w)) = calls w @ [details_call k pid (sort flds)]"
    and "fst (details_plain env k b w) = respond (r_status r1) (GoogleError (r_text r1))"
  using assms
  by (auto simp: details_plain_def Let_def do_fetch_def details_finish_def build_details_call_ok
      split: prod.splits)

lemma batch_item_plain_no_retry:
  assumes "\<not> r_ok r1"
  shows "batch_item_resume_plain pid ck (Resolves r1) d w
          = (Settled (ItemError pid (r_status r1) (r_text r1)), w\<lparr>clock := clock w + int d\<rparr>)"
  using assms by (simp add: batch_item_resume_plain_def batch_item_finish_def)

lemma details_rejected:
  assumes "present (b_placeId b)"
    and "rawId = normalizeId (the (b_placeId b))"
    and "flds = (case b_fields b of None \<Rightarrow> DEFAULT_FIELDS | Some f \<Rightarrow> f)"
    and "uri_ok rawId" and "uri_ok (join '','' flds)"
    and "\<not> truthy (fst (get (cacheKey rawId flds) (clock w) (CACHE w)))"
    and "fetch env (calls w) (details_call k rawId flds) = Rejects msg"
  shows "calls (snd (details env k b w)) = calls w @ [details_call k rawId flds]"
    and "fst (details env k b w) = respond 500 (GatewayException msg)"
  using assms
  by (auto simp: details_def Let_def do_fetch_def build_details_call_ok split: prod.splits)

lemma details_plain_rejected:
  assumes "present (b_placeId b)"
    and "pid = the (b_placeId b)"
    and "flds = (case b_fields b of None \<Rightarrow> DEFAULT_FIELDS_plain | Some f \<Rightarrow> f)"
    and "uri_ok pid" and "uri_ok (join '','' (sort flds))"
    and "\<not> truthy (fst (get (cacheKey_plain pid flds) (clock w) (CACHE w)))"
    and "fetch env (calls w) (details_call k pid (sort flds)) = Rejects msg"
  shows "calls (snd (details_plain env k b w)) = calls w @ [details_call k pid (sort flds)]"
    and "fst (details_plain env k b w) = respond 500 (GatewayException msg)"
  using assms
  by (auto simp: details_plain_def Let_def do_fetch_def build_details_call_ok split: prod.splits)

text \<open>
  Claim C1. Let the identifier and the field list be strings that \<^verbatim>\<open>encodeURIComponent\<close>
  accepts, so that the GET of a details lookup is built, and let the answer to the first
  GET be a response that is not ok. In the handler of \<^verbatim>\<open>api/places.ts\<close>, for the single
  lookup and for a batch item alike: if its status is 400 and its body matches the field-expansion phrase, exactly
  one more call is issued, the same lookup with the default field mask, and when that
  answer is not ok either it is passed on with its status and body and nothing more is
  called; otherwise no call is issued and the first answer is passed on with its status
  and body. In the second handler no answer is ever retried: the first answer is passed
  on with its status and body. A \<^verbatim>\<open>fetch\<close> that rejects is not retried in either
  handler: the error is thrown on, and a single lookup answers 500 with its message.
\<close>

theorem field_mask_fallback:
  assumes "\<not> r_ok r1"
  shows
    "(present (b_placeId b) \<and> rawId = normalizeId (the (b_placeId b))
        \<and> flds = (case b_fields b of None \<Rightarrow> DEFAULT_FIELDS | Some f \<Rightarrow> f)
        \<and> uri_ok rawId \<and> uri_ok (join '','' flds)
        \<and> \<not> truthy (fst (get (cacheKey rawId flds) (clock w) (CACHE w)))
        \<and> fetch env (calls w) (details_call k rawId flds) = Resolves r1 \<longrightarrow>
        (if r_status r1 = 400 \<and> field_mask_error (r_text r1)
         then calls (snd (details env k b w))
                = calls w @ [details_call k rawId flds, details_call k rawId DEFAULT_FIELDS]
              \<and> (\<forall>r2. fetch env (calls w @ [details_call k rawId flds])
                          (details_call k rawId DEFAULT_FIELDS) = Resolves r2 \<and> \<not> r_ok r2 \<longrightarrow>
                     fst (details env k b w) = respond (r_status r2) (GoogleError (r_text r2)))
         else calls (snd (details env k b w)) = calls w @ [details_call k rawId flds]
              \<and> fst (details env k b w) = respond (r_status r1) (GoogleError (r_text r1))))
   \<and> (uri_ok (normalizeId pid) \<and> uri_ok (join '','' flds)
        \<and> \<not> truthy (fst (get (cacheKey (normalizeId pid) flds) (clock w) (CACHE w))) \<longrightarrow>
        calls (snd (batch_item_start env k flds pid w))
          = calls w @ [details_call k (normalizeId pid) flds])
   \<and> (uri_ok rawId \<longrightarrow>
      (if r_status r1 = 400 \<and> field_mask_error (r_text r1)
      then calls (snd (batch_item_resume env k rawId ck (Resolves r1) d w))
             = calls w @ [details_call k rawId DEFAULT_FIELDS]
           \<and> (\<forall>r2. fetch env (calls w) (details_call k rawId DEFAULT_FIELDS) = Resolves r2
                     \<and> \<not> r_ok r2 \<longrightarrow>
                  fst (batch_item_resume env k rawId ck (Resolves r1) d w)
                    = Settled (ItemError rawId (r_status r2) (r_text r2)))
      else batch_item_resume env k rawId ck (Resolves r1) d w
             = (Settled (ItemError rawId (r_status r1) (r_text r1)),
                w\<lparr>clock := clock w + int d\<rparr>)))
   \<and> (present (b_placeId b) \<and> pid = the (b_placeId b)
        \<and> flds' = (case b_fields b of None \<Rightarrow> DEFAULT_FIELDS_plain | Some f \<Rightarrow> f)
        \<and> uri_ok pid \<and> uri_ok (join '','' (sort flds'))
        \<and> \<not> truthy (fst (get (cacheKey_plain pid flds') (clock w) (CACHE w)))
        \<and> fetch env (calls w) (details_call k pid (sort flds')) = Resolves r1 \<longrightarrow>
        calls (snd (details_plain env k b w)) = calls w @ [details_call k pid (sort flds')]
        \<and> fst (details_plain env k b w) = respond (r_status r1) (GoogleError (r_text r1)))
   \<and> batch_item_resume_plain pid ck (Resolves r1) d w
        = (Settled (ItemError pid (r_status r1) (r_text r1)), w\<lparr>clock := clock w + int d\<rparr>)
   \<and> (present (b_placeId b) \<and> rawId = normalizeId (the (b_placeId b))
        \<and> flds = (case b_fields b of None \<Rightarrow> DEFAULT_FIELDS | Some f \<Rightarrow> f)
        \<and> uri_ok rawId \<and> uri_ok (join '','' flds)
        \<and> \<not> truthy (fst (get (cacheKey rawId flds) (clock w) (CACHE w)))
        \<and> fetch env (calls w) (details_call k rawId flds) = Rejects msg \<longrightarrow>
        calls (snd (details env k b w)) = calls w @ [details_call k rawId flds]
        \<and> fst (details env k b w) = respond 500 (GatewayException msg))
   \<and> batch_item_resume env k rawId ck (Rejects msg) d w
        = (Threw msg, w\<lparr>clock := clock w + int d\<rparr>)
   \<and> (present (b_placeId b) \<and> pid = the (b_placeId b)
        \<and> flds' = (case b_fields b of None \<Rightarrow> DEFAULT_FIELDS_plain | Some f \<Rightarrow> f)
        \<and> uri_ok pid \<and> uri_ok (join '','' (sort flds'))
        \<and> \<not> truthy (fst (get (cacheKey_plain pid flds') (clock w) (CACHE w)))
        \<and> fetch env (calls w) (details_call k pid (sort flds')) = Rejects msg \<longrightarrow>
        calls (snd (details_plain env k b w)) = calls w @ [details_call k pid (sort flds')]
        \<and> fst (details_plain env k b w) = respond 500 (GatewayException msg))
   \<and> batch_item_resume_plain pid ck (Rejects msg) d w
        = (Threw msg, w\<lparr>clock := clock w + int d\<rparr>)"
proof (intro conjI)
  show "present (b_placeId b) \<and> rawId = normalizeId (the (b_placeId b))
        \<and> flds = (case b_fields b of None \<Rightarrow> DEFAULT_FIELDS | Some f \<Rightarrow> f)
        \<and> uri_ok rawId \<and> uri_ok (join '','' flds)
        \<and> \<not> truthy (fst (get (cacheKey rawId flds) (clock w) (CACHE w)))
        \<and> fetch env (calls w) (details_call k rawId flds) = Resolves r1 \<longrightarrow>
        (if r_status r1 = 400 \<and> field_mask_error (r_text r1)
         then calls (snd (details env k b w))
                = calls w @ [details_call k rawId flds, details_call k rawId DEFAULT_FIELDS]
              \<and> (\<forall>r2. fetch env (calls w @ [details_call k rawId flds])
                          (details_call k rawId DEFAULT_FIELDS) = Resolves r2 \<and> \<not> r_ok r2 \<longrightarrow>
                     fst (details env k b w) = respond (r_status r2) (GoogleError (r_text r2)))
         else calls (snd (details env k b w)) = calls w @ [details_call k rawId flds]
              \<and> fst (details env k b w) = respond (r_status r1) (GoogleError (r_text r1)))"
    using assms
      details_retry [where b = b and rawId = rawId and flds = flds and w = w and env = env and k = k and ?r1.0 = r1]
      details_no_retry [where b = b and rawId = rawId and flds = flds and w = w and env = env and k = k and ?r1.0 = r1]
    by (cases "r_status r1 = 400 \<and> field_mask_error (r_text r1)") auto
next
  show "uri_ok (normalizeId pid) \<and> uri_ok (join '','' flds)
        \<and> \<not> truthy (fst (get (cacheKey (normalizeId pid) flds) (clock w) (CACHE w))) \<longrightarrow>
        calls (snd (batch_item_start env k flds pid w))
          = calls w @ [details_call k (normalizeId pid) flds]"
    by (simp add: batch_item_start_miss)
next
  show "uri_ok rawId \<longrightarrow>
      (if r_status r1 = 400 \<and> field_mask_error (r_text r1)
      then calls (snd (batch_item_resume env k rawId ck (Resolves r1) d w))
             = calls w @ [details_call k rawId DEFAULT_FIELDS]
           \<and> (\<forall>r2. fetch env (calls w) (details_call k rawId DEFAULT_FIELDS) = Resolves r2
                     \<and> \<not> r_ok r2 \<longrightarrow>
                  fst (batch_item_resume env k rawId ck (Resolves r1) d w)
                    = Settled (ItemError rawId (r_status r2) (r_text r2)))
      else batch_item_resume env k rawId ck (Resolves r1) d w
             = (Settled (ItemError rawId (r_status r1) (r_text r1)),
                w\<lparr>clock := clock w + int d\<rparr>))"
    using assms
      batch_item_retry [where ?r1.0 = r1 and env = env and k = k and rawId = rawId and ck = ck and d = d and w = w]
      batch_item_no_retry [where ?r1.0 = r1 and env = env and k = k and rawId = rawId and ck = ck and d = d and w = w]
    by (cases "r_status r1 = 400 \<and> field_mask_error (r_text r1)") auto
next
  show "present (b_placeId b) \<and> pid = the (b_placeId b)
        \<and> flds' = (case b_fields b of None \<Rightarrow> DEFAULT_FIELDS_plain | Some f \<Rightarrow> f)
        \<and> uri_ok pid \<and> uri_ok (join '','' (sort flds'))
        \<and> \<not> truthy (fst (get (cacheKey_plain pid flds') (clock w) (CACHE w)))
        \<and> fetch env (calls w) (details_call k pid (sort flds')) = Resolves r1 \<longrightarrow>
        calls (snd (details_plain env k b w)) = calls w @ [details_call k pid (sort flds')]
        \<and> fst (details_plain env k b w) = respond (r_status r1) (GoogleError (r_text r1))"
    using assms
      details_plain_no_retry [where b = b and pid = pid and flds = flds' and w = w and env = env and k = k and ?r1.0 = r1]
    by blast
next
  show "batch_item_resume_plain pid ck (Resolves r1) d w
        = (Settled (ItemError pid (r_status r1) (r_text r1)), w\<lparr>clock := clock w + int d\<rparr>)"
    using assms by (rule batch_item_plain_no_retry)
next
  show "present (b_placeId b) \<and> rawId = normalizeId (the (b_placeId b))
        \<and> flds = (case b_fields b of None \<Rightarrow> DEFAULT_FIELDS | Some f \<Rightarrow> f)
        \<and> uri_ok rawId \<and> uri_ok (join '','' flds)
        \<and> \<not> truthy (fst (get (cacheKey rawId flds) (clock w) (CACHE w)))
        \<and> fetch env (calls w) (details_call k rawId flds) = Rejects msg \<longrightarrow>
        calls (snd (details env k b w)) = calls w @ [details_call k rawId flds]
        \<and> fst (details env k b w) = respond 500 (GatewayException msg)"
    using details_rejected [where b = b and rawId = rawId and flds = flds and w = w and env = env
        and k = k and msg = msg]
    by blast
next
  show "batch_item_resume env k rawId ck (Rejects msg) d w
        = (Threw msg, w\<lparr>clock := clock w + int d\<rparr>)"
    by (simp add: batch_item_resume_def)
next
  show "present (b_placeId b) \<and> pid = the (b_placeId b)
        \<and> flds' = (case b_fields b of None \<Rightarrow> DEFAULT_FIELDS_plain | Some f \<Rightarrow> f)
        \<and> uri_ok pid \<and> uri_ok (join '','' (sort flds'))
        \<and> \<not> truthy (fst (get (cacheKey_plain pid flds') (clock w) (CACHE w)))
        \<and> fetch env (calls w) (details_call k pid (sort flds')) = Rejects msg \<longrightarrow>
        calls (snd (details_plain env k b w)) = calls w @ [details_call k pid (sort flds')]
        \<and> fst (details_plain env k b w) = respond 500 (GatewayException msg)"
    using details_plain_rejected [where b = b and pid = pid and flds = flds' and w = w and env = env
        and k = k and msg = msg]
    by blast
next
  show "batch_item_resume_plain pid ck (Rejects msg) d w
        = (Threw msg, w\<lparr>clock := clock w + int d\<rparr>)"
    by (simp add: batch_item_resume_plain_def)
qed


theorem field_mask_fallback_witness:
  "\<not> r_ok field_error_response
   \<and> r_status field_error_response = 400 \<and> field_mask_error (r_text field_error_response)
   \<and> fetch sample_env (calls fresh_world) (details_call ''gk'' ''missing'' [''zzz''])
       = Resolves field_error_response
   \<and> calls (snd (details sample_env ''gk'' bad_mask_body fresh_world))
       = calls fresh_world
         @ [details_call ''gk'' ''missing'' [''zzz''], details_call ''gk'' ''missing'' DEFAULT_FIELDS]
   \<and> fst (details sample_env ''gk'' bad_mask_body fresh_world)
       = respond (r_status not_found_response) (GoogleError (r_text not_found_response))
   \<and> calls (snd (batch_item_resume sample_env ''gk'' ''missing'' (cacheKey ''missing'' [''zzz''])
         (Resolves field_error_response) 7 fresh_world))
       = calls fresh_world @ [details_call ''gk'' ''missing'' DEFAULT_FIELDS]
   \<and> fst (batch_item_resume sample_env ''gk'' ''missing'' (cacheKey ''missing'' [''zzz''])
         (Resolves field_error_response) 7 fresh_world)
       = Settled (ItemError ''missing'' (r_status not_found_response) (r_text not_found_response))
   \<and> calls (snd (details_plain sample_env ''gk'' bad_mask_body fresh_world))
       = calls fresh_world @ [details_call ''gk'' ''places/missing'' (sort [''zzz''])]
   \<and> fst (details_plain sample_env ''gk'' bad_mask_body fresh_world)
       = respond (r_status field_error_response) (GoogleError (r_text field_error_response))"
proof -
  have h1: "\<not> r_ok field_error_response"
    by (simp add: r_ok_def field_error_response_def)
  have h2: "r_status field_error_response = 400" "field_mask_error (r_text field_error_response)"
    by code_simp+
  have h3: "\<not> r_ok not_found_response"
    by (simp add: r_ok_def not_found_response_def)
  have b: "present (b_placeId bad_mask_body)"
      "''missing'' = normalizeId (the (b_placeId bad_mask_body))"
      "''places/missing'' = the (b_placeId bad_mask_body)"
      "[''zzz''] = (case b_fields bad_mask_body of None \<Rightarrow> DEFAULT_FIELDS | Some f \<Rightarrow> f)"
      "[''zzz''] = (case b_fields bad_mask_body of None \<Rightarrow> DEFAULT_FIELDS_plain | Some f \<Rightarrow> f)"
    by code_simp+
  have miss: "\<not> truthy (fst (get key (clock fresh_world) (CACHE fresh_world)))" for key
    by (simp add: fresh_world_def get_def)
  have f1: "fetch sample_env (calls fresh_world) (details_call ''gk'' ''missing'' [''zzz''])
      = Resolves field_error_response"
    by code_simp
  have f2: "fetch sample_env (calls fresh_world @ [details_call ''gk'' ''missing'' [''zzz'']])
      (details_call ''gk'' ''missing'' DEFAULT_FIELDS) = Resolves not_found_response"
    by code_simp
  have f3: "fetch sample_env (calls fresh_world) (details_call ''gk'' ''missing'' DEFAULT_FIELDS)
      = Resolves not_found_response"
    by code_simp
  have f4: "fetch sample_env (calls fresh_world) (details_call ''gk'' ''places/missing'' (sort [''zzz'']))
      = Resolves field_error_response"
    by code_simp
  have u: "uri_ok ''missing''" "uri_ok ''places/missing''" "uri_ok (normalizeId ''places/missing'')"
      "uri_ok (join '','' [''zzz''])" "uri_ok (join '','' (sort [''zzz'']))"
    by code_simp+
  note T = field_mask_fallback [OF h1, where b = bad_mask_body and rawId = "''missing''"
      and flds = "[''zzz'']" and w = fresh_world and env = sample_env and k = "''gk''"
      and pid = "''places/missing''" and ck = "cacheKey ''missing'' [''zzz'']" and d = 7
      and flds' = "[''zzz'']"]
  show ?thesis
    using T h1 h2 h3 b u miss f1 f2 f3 f4 by metis
qed

text \<open>
  The claim as it is written fails on the second handler: the provider answers 400 with
  the field-expansion phrase, and the handler passes that on after a single call.
\<close>

theorem no_fallback_counterexample:
  "r_status field_error_response = 400 \<and> field_mask_error (r_text field_error_response)
   \<and> fetch sample_env [] (details_call ''gk'' ''ChIJabc'' [''zzz'']) = Resolves field_error_response
   \<and> handler_plain sample_env (details_request ''ChIJabc'' (Some [''zzz''])) fresh_world
       = (respond 400 (GoogleError (r_text field_error_response)),
          fresh_world\<lparr>calls := [details_call ''gk'' ''ChIJabc'' [''zzz'']], clock := 107\<rparr>)"
  by code_simp

section \<open>The items of a batch\<close>

text \<open>
  The state in which the wait of a batch begins, and what each item leaves when it
  resumes, for a provider that answers every call and identifiers and fields that
  \<^verbatim>\<open>encodeURIComponent\<close> accepts.
\<close>

lemma fst_get_after_get: "fst (get k now (snd (get k' now c))) = fst (get k now c)"
  by (auto simp: get_def delete_conv' split: option.splits)

lemma cacheKey_sort: "cacheKey p (sort flds) = cacheKey p flds"
  by (simp add: cacheKey_def sorted_sort_id)

lemma cacheKey_plain_eq: "cacheKey_plain p flds = cacheKey p (sort flds)"
  by (simp add: cacheKey_plain_def cacheKey_def sorted_sort_id)

lemma batch_item_start_eq:
  assumes "uri_ok (normalizeId pid)" and "uri_ok (join '','' flds)"
  shows "batch_item_start env k flds pid w =
    (if cache_miss w (cacheKey (normalizeId pid) flds) then
       (Pending (normalizeId pid) (cacheKey (normalizeId pid) flds)
          (fetch env (calls w) (details_call k (normalizeId pid) flds))
          (elapsed env (calls w) (details_call k (normalizeId pid) flds)),
        w\<lparr>CACHE := snd (get (cacheKey (normalizeId pid) flds) (clock w) (CACHE w)),
          calls := calls w @ [details_call k (normalizeId pid) flds]\<rparr>)
     else
       (Settled (ItemOk (normalizeId pid)
          (fst (get (cacheKey (normalizeId pid) flds) (clock w) (CACHE w))) True),
        w\<lparr>CACHE := snd (get (cacheKey (normalizeId pid) flds) (clock w) (CACHE w))\<rparr>))"
  using assms
  by (simp add: batch_item_start_def Let_def split_beta build_details_call_ok cache_miss_def)

lemma batch_item_start_plain_eq:
  assumes "uri_ok pid" and "uri_ok (join '','' (sort flds))"
  shows "batch_item_start_plain env k flds pid w =
    (if cache_miss w (cacheKey pid (sort flds)) then
       (Pending pid (cacheKey pid (sort flds))
          (fetch env (calls w) (details_call k pid (sort flds)))
          (elapsed env (calls w) (details_call k pid (sort flds))),
        w\<lparr>CACHE := snd (get (cacheKey pid (sort flds)) (clock w) (CACHE w)),
          calls := calls w @ [details_call k pid (sort flds)]\<rparr>)
     else
       (Settled (ItemOk pid (fst (get (cacheKey pid (sort flds)) (clock w) (CACHE w))) True),
        w\<lparr>CACHE := snd (get (cacheKey pid (sort flds)) (clock w) (CACHE w))\<rparr>))"
  using assms
  by (simp add: batch_item_start_plain_def Let_def split_beta build_details_call_ok cache_miss_def
      cacheKey_plain_eq)

lemma batch_start_snoc:
  "batch_start env k flds (ids @ [pid]) w =
     (fst (batch_start env k flds ids w)
        @ [fst (batch_item_start env k flds pid (snd (batch_start env k flds ids w)))],
      snd (batch_item_start env k flds pid (snd (batch_start env k flds ids w))))"
  by (induction ids arbitrary: w) (simp_all add: split_beta Let_def)

lemma batch_start_plain_snoc:
  "batch_start_plain env k flds (ids @ [pid]) w =
     (fst (batch_start_plain env k flds ids w)
        @ [fst (batch_item_start_plain env k flds pid (snd (batch_start_plain env k flds ids w)))],
      snd (batch_item_start_plain env k flds pid (snd (batch_start_plain env k flds ids w))))"
  by (induction ids arbitrary: w) (simp_all add: split_beta Let_def)

lemma started_snoc:
  "i < length ps \<Longrightarrow> started env k flds w (ps @ [p]) i = started env k flds w ps i"
  by (simp add: started_def nth_append Let_def)

lemma issued_snoc:
  "issued k flds w (ps @ [p]) =
     (if cache_miss w (cacheKey p flds) then issued k flds w ps @ [details_call k p flds]
      else issued k flds w ps)"
  by (simp add: issued_def)

lemma batch_start_started:
  assumes "\<forall>p \<in> set ids. uri_ok (normalizeId p)" and "uri_ok (join '','' flds)"
  shows "fst (batch_start env k flds ids w)
           = map (started env k flds w (map normalizeId ids)) [0..<length ids]
       \<and> calls (snd (batch_start env k flds ids w)) = issued k flds w (map normalizeId ids)
       \<and> clock (snd (batch_start env k flds ids w)) = clock w
       \<and> (\<forall>ck. fst (get ck (clock w) (CACHE (snd (batch_start env k flds ids w))))
                = fst (get ck (clock w) (CACHE w)))"
  using assms(1)
proof (induction ids rule: rev_induct)
  case Nil
  then show ?case by (simp add: issued_def)
next
  case (snoc pid ids)
  let ?w1 = "snd (batch_start env k flds ids w)"
  let ?p = "normalizeId pid"
  from snoc have IH: "fst (batch_start env k flds ids w)
           = map (started env k flds w (map normalizeId ids)) [0..<length ids]"
      "calls ?w1 = issued k flds w (map normalizeId ids)"
      "clock ?w1 = clock w"
      "\<And>ck. fst (get ck (clock w) (CACHE ?w1)) = fst (get ck (clock w) (CACHE w))"
    by simp_all
  from snoc.prems have u: "uri_ok ?p"
    by simp
  have miss: "cache_miss ?w1 ck = cache_miss w ck" for ck
    using IH(3,4) by (simp add: cache_miss_def)
  have old: "map (started env k flds w (map normalizeId ids @ [?p])) [0..<length ids]
      = map (started env k flds w (map normalizeId ids)) [0..<length ids]"
    by (rule map_cong) (simp_all add: started_snoc)
  have new: "fst (batch_item_start env k flds pid ?w1)
      = started env k flds w (map normalizeId ids @ [?p]) (length ids)"
    using IH(2,3,4) miss
    by (simp add: batch_item_start_eq [OF u assms(2)] started_def nth_append cache_miss_def Let_def)
  have c: "calls (snd (batch_item_start env k flds pid ?w1))
      = issued k flds w (map normalizeId ids @ [?p])"
    using IH(2) miss by (simp add: batch_item_start_eq [OF u assms(2)] issued_snoc)
  have t: "clock (snd (batch_item_start env k flds pid ?w1)) = clock w"
    using IH(3) by (simp add: batch_item_start_eq [OF u assms(2)])
  have g: "fst (get ck (clock w) (CACHE (snd (batch_item_start env k flds pid ?w1))))
      = fst (get ck (clock w) (CACHE w))" for ck
    using IH(3) IH(4) [of ck] fst_get_after_get [of ck "clock w" _ "CACHE ?w1"]
    by (simp add: batch_item_start_eq [OF u assms(2)])
  show ?case
    using IH(1) old new c t g by (simp add: batch_start_snoc)
qed

lemma batch_start_plain_started:
  assumes "\<forall>p \<in> set ids. uri_ok p" and "uri_ok (join '','' (sort flds))"
  shows "fst (batch_start_plain env k flds ids w)
           = map (started env k (sort flds) w ids) [0..<length ids]
       \<and> calls (snd (batch_start_plain env k flds ids w)) = issued k (sort flds) w ids
       \<and> clock (snd (batch_start_plain env k flds ids w)) = clock w
       \<and> (\<forall>ck. fst (get ck (clock w) (CACHE (snd (batch_start_plain env k flds ids w))))
                = fst (get ck (clock w) (CACHE w)))"
  using assms(1)
proof (induction ids rule: rev_induct)
  case Nil
  then show ?case by (simp add: issued_def)
next
  case (snoc pid ids)
  let ?w1 = "snd (batch_start_plain env k flds ids w)"
  from snoc have IH: "fst (batch_start_plain env k flds ids w)
           = map (started env k (sort flds) w ids) [0..<length ids]"
      "calls ?w1 = issued k (sort flds) w ids"
      "clock ?w1 = clock w"
      "\<And>ck. fst (get ck (clock w) (CACHE ?w1)) = fst (get ck (clock w) (CACHE w))"
    by simp_all
  from snoc.prems have u: "uri_ok pid"
    by simp
  have miss: "cache_miss ?w1 ck = cache_miss w ck" for ck
    using IH(3,4) by (simp add: cache_miss_def)
  have old: "map (started env k (sort flds) w (ids @ [pid])) [0..<length ids]
      = map (started env k (sort flds) w ids) [0..<length ids]"
    by (rule map_cong) (simp_all add: started_snoc)
  have new: "fst (batch_item_start_plain env k flds pid ?w1)
      = started env k (sort flds) w (ids @ [pid]) (length ids)"
    using IH(2,3,4) miss
    by (simp add: batch_item_start_plain_eq [OF u assms(2)] started_def nth_append cache_miss_def Let_def)
  have c: "calls (snd (batch_item_start_plain env k flds pid ?w1))
      = issued k (sort flds) w (ids @ [pid])"
    using IH(2) miss by (simp add: batch_item_start_plain_eq [OF u assms(2)] issued_snoc)
  have t: "clock (snd (batch_item_start_plain env k flds pid ?w1)) = clock w"
    using IH(3) by (simp add: batch_item_start_plain_eq [OF u assms(2)])
  have g: "fst (get ck (clock w) (CACHE (snd (batch_item_start_plain env k flds pid ?w1))))
      = fst (get ck (clock w) (CACHE w))" for ck
    using IH(3) IH(4) [of ck] fst_get_after_get [of ck "clock w" _ "CACHE ?w1"]
    by (simp add: batch_item_start_plain_eq [OF u assms(2)])
  show ?case
    using IH(1) old new c t g by (simp add: batch_start_plain_snoc)
qed

lemma item_rel_pending: "item_rel Q s0 (Pending q ck r d) \<Longrightarrow> s0 = Pending q ck r d"
  by (cases s0) auto

lemma item_rel_refl: "\<not> (\<exists>m. s0 = Threw m) \<Longrightarrow> item_rel Q s0 s0"
  by (cases s0) auto

lemma resume_item_inv:
  assumes inv: "wait_inv Q I ss0 D st"
    and step: "\<And>ss i q ck r d w. i < length ss \<Longrightarrow> ss ! i = Pending q ck r d \<Longrightarrow>
        ss0 ! i = Pending q ck r d \<Longrightarrow> length ss = length ss0 \<Longrightarrow> I ss w \<Longrightarrow>
        \<exists>res. fst (cont q ck r d w) = Settled res \<and> Q q ck r res
             \<and> I (ss[i := Settled res]) (snd (cont q ck r d w))"
  shows "wait_inv Q I ss0 (insert i D) (resume_item cont i st)"
proof -
  obtain ss err w where st: "st = (ss, err, w)"
    by (cases st) auto
  from inv st have err: "err = None" and all: "list_all2 (item_rel Q) ss0 ss" and I: "I ss w"
    and quiet: "\<forall>j \<in> D. j < length ss \<longrightarrow> \<not> is_pending (ss ! j)"
    by (auto simp: wait_inv_def)
  from all have len: "length ss = length ss0"
    by (simp add: list_all2_lengthD)
  show ?thesis
  proof (cases "i < length ss \<and> is_pending (ss ! i)")
    case False
    then have "resume_item cont i st = st"
      unfolding st resume_item_def by (cases "ss ! i") auto
    then show ?thesis
      using inv False st by (auto simp: wait_inv_def)
  next
    case True
    then obtain q ck r d where p: "ss ! i = Pending q ck r d"
      by (cases "ss ! i") auto
    from all True have "item_rel Q (ss0 ! i) (ss ! i)"
      by (simp add: list_all2_nthD2)
    with p have p0: "ss0 ! i = Pending q ck r d"
      by (simp add: item_rel_pending)
    from step [of i ss q ck r d w] True p p0 len I obtain res where
      res: "fst (cont q ck r d w) = Settled res" and Q: "Q q ck r res"
      and I': "I (ss[i := Settled res]) (snd (cont q ck r d w))"
      by auto
    have run: "resume_item cont i st
        = (ss[i := Settled res], None, snd (cont q ck r d w))"
      unfolding st resume_item_def using True p res err
      by (auto simp: first_error_def split: prod.splits)
    have "item_rel Q (ss0 ! i) (Settled res)"
      using p0 Q by simp
    then have "list_all2 (item_rel Q) (ss0[i := ss0 ! i]) (ss[i := Settled res])"
      using all by (intro list_all2_update_cong) simp_all
    then have all': "list_all2 (item_rel Q) ss0 (ss[i := Settled res])"
      by simp
    have "\<forall>j \<in> insert i D. j < length (ss[i := Settled res])
        \<longrightarrow> \<not> is_pending (ss[i := Settled res] ! j)"
    proof (intro ballI impI)
      fix j
      assume j: "j \<in> insert i D" and len: "j < length (ss[i := Settled res])"
      show "\<not> is_pending (ss[i := Settled res] ! j)"
      proof (cases "j = i")
        case True
        with len show ?thesis by simp
      next
        case False
        with j len quiet show ?thesis by simp
      qed
    qed
    then show ?thesis
      unfolding run wait_inv_def using all' I' by simp
  qed
qed

lemma fold_resume_inv:
  assumes step: "\<And>ss i q ck r d w. i < length ss \<Longrightarrow> ss ! i = Pending q ck r d \<Longrightarrow>
        ss0 ! i = Pending q ck r d \<Longrightarrow> length ss = length ss0 \<Longrightarrow> I ss w \<Longrightarrow>
        \<exists>res. fst (cont q ck r d w) = Settled res \<and> Q q ck r res
             \<and> I (ss[i := Settled res]) (snd (cont q ck r d w))"
  shows "wait_inv Q I ss0 D st \<Longrightarrow> wait_inv Q I ss0 (D \<union> set xs) (fold (resume_item cont) xs st)"
proof (induction xs arbitrary: D st)
  case Nil
  then show ?case by simp
next
  case (Cons i xs)
  have "wait_inv Q I ss0 (insert i D) (resume_item cont i st)"
    using Cons.prems step by (rule resume_item_inv)
  from Cons.IH [OF this] show ?case
    by simp
qed

lemma settled_list:
  assumes "list_all2 (item_rel Q) ss0 ss" and "\<forall>j < length ss. \<not> is_pending (ss ! j)"
  shows "\<exists>rs. ss = map Settled rs \<and> list_all2 (item_done Q) ss0 rs"
  using assms
proof (induction ss0 ss rule: list_all2_induct)
  case Nil
  then show ?case by simp
next
  case (Cons s0 ss0 s ss)
  from Cons.prems have np: "\<not> is_pending s" and rest: "\<forall>j < length ss. \<not> is_pending (ss ! j)"
    by auto
  from Cons.hyps(1) np obtain res where s: "s = Settled res" and Q: "item_done Q s0 res"
    by (cases s0) auto
  from Cons.IH [OF rest] obtain rs where "ss = map Settled rs" "list_all2 (item_done Q) ss0 rs"
    by auto
  with s Q have "s # ss = map Settled (res # rs) \<and> list_all2 (item_done Q) (s0 # ss0) (res # rs)"
    by simp
  then show ?case by (rule exI)
qed

lemma item_results_settled: "item_results (map Settled rs) = rs"
  by (induction rs) auto

lemma first_thrown_none: "\<forall>s \<in> set ss. \<not> (\<exists>m. s = Threw m) \<Longrightarrow> first_thrown ss = None"
  by (induction ss rule: first_thrown.induct) auto

lemma await_all_settles:
  assumes start: "\<forall>s \<in> set ss0. \<not> (\<exists>m. s = Threw m)" and init: "I ss0 w"
    and step: "\<And>ss i q ck r d w. i < length ss \<Longrightarrow> ss ! i = Pending q ck r d \<Longrightarrow>
        ss0 ! i = Pending q ck r d \<Longrightarrow> length ss = length ss0 \<Longrightarrow> I ss w \<Longrightarrow>
        \<exists>res. fst (cont q ck r d w) = Settled res \<and> Q q ck r res
             \<and> I (ss[i := Settled res]) (snd (cont q ck r d w))"
  shows "\<exists>rs w'. await_all cont order ss0 w = (map Settled rs, None, w')
           \<and> list_all2 (item_done Q) ss0 rs \<and> I (map Settled rs) w'"
proof -
  have "list_all2 (item_rel Q) ss0 ss0"
    using start by (simp add: list_all2_same item_rel_refl)
  then have W: "wait_inv Q I ss0 {} (ss0, first_thrown ss0, w)"
    using init first_thrown_none [OF start] by (simp add: wait_inv_def)
  have "wait_inv Q I ss0 ({} \<union> set (order @ [0..<length ss0]))
      (fold (resume_item cont) (order @ [0..<length ss0]) (ss0, first_thrown ss0, w))"
    using step W by (rule fold_resume_inv)
  then have inv: "wait_inv Q I ss0 (set order \<union> {0..<length ss0}) (await_all cont order ss0 w)"
    unfolding await_all_def by simp
  obtain ss' err w' where fin: "await_all cont order ss0 w = (ss', err, w')"
    by (cases "await_all cont order ss0 w") auto
  from inv have err: "err = None" and all: "list_all2 (item_rel Q) ss0 ss'"
    and I: "I ss' w'"
    and quiet: "\<forall>j \<in> set order \<union> {0..<length ss0}. j < length ss' \<longrightarrow> \<not> is_pending (ss' ! j)"
    unfolding fin wait_inv_def by simp_all
  have "length ss' = length ss0"
    using all by (simp add: list_all2_lengthD)
  with quiet have "\<forall>j < length ss'. \<not> is_pending (ss' ! j)"
    by simp
  from settled_list [OF all this] obtain rs where rs: "ss' = map Settled rs"
    and d: "list_all2 (item_done Q) ss0 rs"
    by blast
  have "await_all cont order ss0 w = (map Settled rs, None, w')
      \<and> list_all2 (item_done Q) ss0 rs \<and> I (map Settled rs) w'"
    using fin err I rs d by simp
  then show ?thesis
    by blast
qed

lemma always_answers_resolves:
  "always_answers env \<Longrightarrow>
   \<exists>r. fetch env log oc = Resolves r \<and> (r_ok r \<longrightarrow> (\<exists>j. r_json r = Inr j))"
  unfolding always_answers_def by blast

lemma batch_item_finish_entry:
  assumes "always_answers env" and "fetch env log oc = Resolves r"
  shows "\<exists>res. fst (batch_item_finish p ck r w) = Settled res \<and> entry_of p r res
           \<and> calls (snd (batch_item_finish p ck r w)) = calls w
           \<and> clock (snd (batch_item_finish p ck r w)) = clock w
           \<and> CACHE (snd (batch_item_finish p ck r w))
               = (case res of ItemOk q j c \<Rightarrow> put ck j 3600 (clock w) (CACHE w)
                  | ItemError q st txt \<Rightarrow> CACHE w)"
proof (cases "r_ok r")
  case False
  then show ?thesis
    by (simp add: batch_item_finish_def)
next
  case True
  from always_answers_resolves [OF assms(1), of log oc] assms(2) True
  obtain j where "r_json r = Inr j"
    by auto
  then show ?thesis
    using True by (simp add: batch_item_finish_def)
qed

lemma batch_item_resume_entry:
  assumes aa: "always_answers env" and r: "fetch env log oc = r" and u: "uri_ok p"
    and pre: "prefix log0 (calls w)"
  shows "\<exists>res. fst (batch_item_resume env k p ck r d w) = Settled res
           \<and> fetched_entry env k log0 p r res
           \<and> prefix log0 (calls (snd (batch_item_resume env k p ck r d w)))
           \<and> clock w \<le> clock (snd (batch_item_resume env k p ck r d w))
           \<and> CACHE (snd (batch_item_resume env k p ck r d w))
               = (case res of
                    ItemOk q j c \<Rightarrow>
                      put ck j 3600 (clock (snd (batch_item_resume env k p ck r d w))) (CACHE w)
                  | ItemError q st txt \<Rightarrow> CACHE w)"
proof -
  from always_answers_resolves [OF aa, of log oc] r obtain r1 where r1: "r = Resolves r1"
    by auto
  let ?w0 = "w\<lparr>clock := clock w + int d\<rparr>"
  show ?thesis
  proof (cases "r_status r1 = 400 \<and> field_mask_error (r_text r1)")
    case True
    then have nok: "\<not> r_ok r1"
      by (simp add: r_ok_def)
    let ?oc = "details_call k p DEFAULT_FIELDS"
    let ?w1 = "?w0\<lparr>calls := calls w @ [?oc], clock := clock w + int d + int (elapsed env (calls w) ?oc)\<rparr>"
    from always_answers_resolves [OF aa, of "calls w" ?oc] obtain r2
      where r2: "fetch env (calls w) ?oc = Resolves r2"
      by auto
    have run: "batch_item_resume env k p ck r d w = batch_item_finish p ck r2 ?w1"
      using True nok r1 r2 u
      by (simp add: batch_item_resume_def Let_def do_fetch_def build_details_call_ok
          default_fields_ok)
    from batch_item_finish_entry [OF aa r2, of p ck ?w1] obtain res where
      res: "fst (batch_item_finish p ck r2 ?w1) = Settled res" "entry_of p r2 res"
        "calls (snd (batch_item_finish p ck r2 ?w1)) = calls ?w1"
        "clock (snd (batch_item_finish p ck r2 ?w1)) = clock ?w1"
        "CACHE (snd (batch_item_finish p ck r2 ?w1))
               = (case res of ItemOk q j c \<Rightarrow> put ck j 3600 (clock ?w1) (CACHE ?w1)
                  | ItemError q st txt \<Rightarrow> CACHE ?w1)"
      by blast
    have fe: "fetched_entry env k log0 p r res"
      unfolding fetched_entry_def using r1 True r2 res(2) pre by auto
    have "fst (batch_item_resume env k p ck r d w) = Settled res
           \<and> fetched_entry env k log0 p r res
           \<and> prefix log0 (calls (snd (batch_item_resume env k p ck r d w)))
           \<and> clock w \<le> clock (snd (batch_item_resume env k p ck r d w))
           \<and> CACHE (snd (batch_item_resume env k p ck r d w))
               = (case res of
                    ItemOk q j c \<Rightarrow>
                      put ck j 3600 (clock (snd (batch_item_resume env k p ck r d w))) (CACHE w)
                  | ItemError q st txt \<Rightarrow> CACHE w)"
      unfolding run using res fe pre by (cases res) (simp_all add: prefix_order.trans)
    then show ?thesis
      by (rule exI)
  next
    case False
    have run: "batch_item_resume env k p ck r d w
        = (if r_ok r1 then batch_item_finish p ck r1 ?w0
           else (Settled (ItemError p (r_status r1) (r_text r1)), ?w0))"
      using False r1 by (auto simp: batch_item_resume_def Let_def)
    from batch_item_finish_entry [OF aa r [unfolded r1], of p ck ?w0] obtain res where
      res: "fst (batch_item_finish p ck r1 ?w0) = Settled res" "entry_of p r1 res"
        "calls (snd (batch_item_finish p ck r1 ?w0)) = calls ?w0"
        "clock (snd (batch_item_finish p ck r1 ?w0)) = clock ?w0"
        "CACHE (snd (batch_item_finish p ck r1 ?w0))
               = (case res of ItemOk q j c \<Rightarrow> put ck j 3600 (clock ?w0) (CACHE ?w0)
                  | ItemError q st txt \<Rightarrow> CACHE ?w0)"
      by blast
    show ?thesis
    proof (cases "r_ok r1")
      case True
      have fe: "fetched_entry env k log0 p r res"
        unfolding fetched_entry_def using r1 False res(2) by auto
      have "fst (batch_item_resume env k p ck r d w) = Settled res
           \<and> fetched_entry env k log0 p r res
           \<and> prefix log0 (calls (snd (batch_item_resume env k p ck r d w)))
           \<and> clock w \<le> clock (snd (batch_item_resume env k p ck r d w))
           \<and> CACHE (snd (batch_item_resume env k p ck r d w))
               = (case res of
                    ItemOk q j c \<Rightarrow>
                      put ck j 3600 (clock (snd (batch_item_resume env k p ck r d w))) (CACHE w)
                  | ItemError q st txt \<Rightarrow> CACHE w)"
        unfolding run using True res fe pre by (cases res) simp_all
      then show ?thesis
        by (rule exI)
    next
      case nok: False
      have "fetched_entry env k log0 p r (ItemError p (r_status r1) (r_text r1))"
        unfolding fetched_entry_def using r1 False nok by auto
      then show ?thesis
        unfolding run using nok pre by simp
    qed
  qed
qed

lemma batch_item_resume_plain_entry:
  assumes aa: "always_answers env" and r: "fetch env log oc = r"
  shows "\<exists>res. fst (batch_item_resume_plain p ck r d w) = Settled res
           \<and> fetched_entry_plain p r res"
proof -
  from always_answers_resolves [OF aa, of log oc] r obtain r1 where r1: "r = Resolves r1"
    by auto
  from batch_item_finish_entry [OF aa r [unfolded r1], of p ck "w\<lparr>clock := clock w + int d\<rparr>"]
  show ?thesis
    unfolding r1 by (auto simp: batch_item_resume_plain_def Let_def fetched_entry_plain_def)
qed

lemma started_not_threw: "started env k flds w ps i \<noteq> Threw m"
  by (simp add: started_def Let_def)

lemma started_pending:
  assumes "started env k flds w ps i = Pending q ck r d"
  shows "q = ps ! i" and "ck = cacheKey (ps ! i) flds"
    and "fetch env (issued k flds w (take i ps)) (details_call k (ps ! i) flds) = r"
    and "cache_miss w (cacheKey (ps ! i) flds)"
  using assms by (auto simp: started_def Let_def cache_miss_def split: if_splits)

lemma item_done_started:
  "item_done (\<lambda>q ck. fetched_entry env k (issued k flds w ps) q) (started env k flds w ps i) res
     = batch_entry env k flds w ps i res"
  by (simp add: started_def batch_entry_def Let_def)

lemma item_done_started_plain:
  "item_done (\<lambda>q ck. fetched_entry_plain q) (started env k flds w ps i) res
     = batch_entry_plain env k flds w ps i res"
  by (simp add: started_def batch_entry_plain_def Let_def)

lemma batchDetails_run:
  assumes aa: "always_answers env"
    and ids: "b_placeIds b = Some (IdArray ids)" "1 \<le> length ids" "length ids \<le> 50"
    and flds: "flds = (case b_fields b of None \<Rightarrow> DEFAULT_FIELDS | Some f \<Rightarrow> f)"
    and uri: "\<forall>p \<in> set ids. uri_ok (normalizeId p)" "uri_ok (join '','' flds)"
    and ps: "ps = map normalizeId ids"
    and init: "I (map (started env k flds w ps) [0..<length ps]) (snd (batch_start env k flds ids w))"
    and step: "\<And>ss i r d w' res. i < length ps \<Longrightarrow> length ss = length ps \<Longrightarrow>
        ss ! i = Pending (ps ! i) (cacheKey (ps ! i) flds) r d \<Longrightarrow>
        started env k flds w ps i = Pending (ps ! i) (cacheKey (ps ! i) flds) r d \<Longrightarrow>
        I ss w' \<Longrightarrow>
        fst (batch_item_resume env k (ps ! i) (cacheKey (ps ! i) flds) r d w') = Settled res \<Longrightarrow>
        fetched_entry env k (issued k flds w ps) (ps ! i) r res \<Longrightarrow>
        clock w' \<le> clock (snd (batch_item_resume env k (ps ! i) (cacheKey (ps ! i) flds) r d w')) \<Longrightarrow>
        CACHE (snd (batch_item_resume env k (ps ! i) (cacheKey (ps ! i) flds) r d w'))
          = (case res of
               ItemOk q j c \<Rightarrow>
                 put (cacheKey (ps ! i) flds) j 3600
                   (clock (snd (batch_item_resume env k (ps ! i) (cacheKey (ps ! i) flds) r d w')))
                   (CACHE w')
             | ItemError q st txt \<Rightarrow> CACHE w') \<Longrightarrow>
        I (ss[i := Settled res])
          (snd (batch_item_resume env k (ps ! i) (cacheKey (ps ! i) flds) r d w'))"
  shows "\<exists>rs w'. batchDetails env k b w = (respond 200 (BatchResults rs), w')
           \<and> length rs = length ids
           \<and> (\<forall>i < length ids. batch_entry env k flds w ps i (rs ! i))
           \<and> I (map Settled rs) w'"
proof -
  let ?ss0 = "map (started env k flds w ps) [0..<length ps]"
  let ?w1 = "snd (batch_start env k flds ids w)"
  let ?log0 = "issued k flds w ps"
  let ?Q = "\<lambda>q ck. fetched_entry env k ?log0 q"
  let ?I = "\<lambda>ss w'. prefix ?log0 (calls w') \<and> I ss w'"
  note S = batch_start_started [OF uri, of env k w]
  have st: "fst (batch_start env k flds ids w) = ?ss0"
    using S ps by simp
  have c1: "calls ?w1 = ?log0"
    using S ps by simp
  have nothrow: "\<forall>s \<in> set ?ss0. \<not> (\<exists>m. s = Threw m)"
    by (auto simp: started_not_threw)
  have init': "?I ?ss0 ?w1"
    using init c1 by simp
  have step': "\<exists>res. fst (batch_item_resume env k q ck r d w') = Settled res \<and> ?Q q ck r res
             \<and> ?I (ss[i := Settled res]) (snd (batch_item_resume env k q ck r d w'))"
    if i: "i < length ss" and p: "ss ! i = Pending q ck r d" and p0: "?ss0 ! i = Pending q ck r d"
      and len: "length ss = length ?ss0" and I: "?I ss w'"
    for ss i q ck r d w'
  proof -
    from i len have i': "i < length ps"
      by simp
    then have s0: "started env k flds w ps i = Pending q ck r d"
      using p0 by simp
    note P = started_pending [OF s0]
    have u: "uri_ok q"
      using P(1) i' ps uri(1) by simp
    from batch_item_resume_entry [OF aa P(3) u, of ?log0 w' k ck d] I
    obtain res where
      res: "fst (batch_item_resume env k q ck r d w') = Settled res"
        "fetched_entry env k ?log0 q r res"
        "prefix ?log0 (calls (snd (batch_item_resume env k q ck r d w')))"
        "clock w' \<le> clock (snd (batch_item_resume env k q ck r d w'))"
        "CACHE (snd (batch_item_resume env k q ck r d w'))
               = (case res of
                    ItemOk q' j c \<Rightarrow>
                      put ck j 3600 (clock (snd (batch_item_resume env k q ck r d w'))) (CACHE w')
                  | ItemError q' st txt \<Rightarrow> CACHE w')"
      by blast
    have "I (ss[i := Settled res]) (snd (batch_item_resume env k q ck r d w'))"
      using step [of i ss r d w' res] i' len p s0 I res unfolding P(1,2) by simp
    with res show ?thesis
      by blast
  qed
  have "\<exists>rs w'. await_all (batch_item_resume env k) (arrival env) ?ss0 ?w1
        = (map Settled rs, None, w')
      \<and> list_all2 (item_done ?Q) ?ss0 rs \<and> ?I (map Settled rs) w'"
    apply (rule await_all_settles [where I = ?I and Q = ?Q])
      apply (rule nothrow)
     apply (rule init')
    apply (rule step'; assumption)
    done
  then obtain rs w' where fin: "await_all (batch_item_resume env k) (arrival env) ?ss0 ?w1
        = (map Settled rs, None, w')"
    and out: "list_all2 (item_done ?Q) ?ss0 rs" and I': "I (map Settled rs) w'"
    by blast
  have run: "batchDetails env k b w = (respond 200 (BatchResults rs), w')"
    using ids st fin flds [symmetric]
    by (cases ids) (simp_all add: batchDetails_def split_beta Let_def item_results_settled)
  have len: "length rs = length ids"
    using list_all2_lengthD [OF out] ps by simp
  have "batch_entry env k flds w ps i (rs ! i)" if "i < length ids" for i
  proof -
    have "item_done ?Q (?ss0 ! i) (rs ! i)"
      using list_all2_nthD [OF out, of i] that ps by simp
    then show ?thesis
      using that ps by (simp add: item_done_started)
  qed
  with run len I' show ?thesis
    by blast
qed

lemma batchDetails_entries:
  assumes aa: "always_answers env"
    and ids: "b_placeIds b = Some (IdArray ids)" "1 \<le> length ids" "length ids \<le> 50"
    and flds: "flds = (case b_fields b of None \<Rightarrow> DEFAULT_FIELDS | Some f \<Rightarrow> f)"
    and uri: "\<forall>p \<in> set ids. uri_ok (normalizeId p)" "uri_ok (join '','' flds)"
  shows "\<exists>rs w'. batchDetails env k b w = (respond 200 (BatchResults rs), w')
           \<and> length rs = length ids
           \<and> (\<forall>i < length ids. batch_entry env k flds w (map normalizeId ids) i (rs ! i))"
  using batchDetails_run [where I = "\<lambda>ss w. True", OF aa ids flds uri refl]
  by simp

lemma batchDetails_plain_entries:
  assumes aa: "always_answers env"
    and ids: "b_placeIds b = Some (IdArray ids)" "1 \<le> length ids" "length ids \<le> 50"
    and flds: "flds = (case b_fields b of None \<Rightarrow> DEFAULT_FIELDS_plain | Some f \<Rightarrow> f)"
    and uri: "\<forall>p \<in> set ids. uri_ok p" "uri_ok (join '','' (sort flds))"
  shows "\<exists>rs w'. batchDetails_plain env k b w = (respond 200 (BatchResults rs), w')
           \<and> length rs = length ids
           \<and> (\<forall>i < length ids. batch_entry_plain env k (sort flds) w ids i (rs ! i))"
proof -
  let ?ss0 = "map (started env k (sort flds) w ids) [0..<length ids]"
  let ?w1 = "snd (batch_start_plain env k flds ids w)"
  let ?Q = "\<lambda>q ck. fetched_entry_plain q"
  let ?I = "\<lambda>(ss :: item_state list) (w' :: world). True"
  note S = batch_start_plain_started [OF uri, of env k w]
  have st: "fst (batch_start_plain env k flds ids w) = ?ss0"
    using S by simp
  have nothrow: "\<forall>s \<in> set ?ss0. \<not> (\<exists>m. s = Threw m)"
    by (auto simp: started_not_threw)
  have step': "\<exists>res. fst (batch_item_resume_plain q ck r d w') = Settled res \<and> ?Q q ck r res
             \<and> ?I (ss[i := Settled res]) (snd (batch_item_resume_plain q ck r d w'))"
    if i: "i < length ss" and p: "ss ! i = Pending q ck r d" and p0: "?ss0 ! i = Pending q ck r d"
      and len: "length ss = length ?ss0" and I: "?I ss w'"
    for ss i q ck r d w'
  proof -
    from i len have "started env k (sort flds) w ids i = Pending q ck r d"
      using p0 by simp
    note P = started_pending [OF this]
    from batch_item_resume_plain_entry [OF aa P(3), of q ck d w'] show ?thesis
      by simp
  qed
  have "\<exists>rs w'. await_all batch_item_resume_plain (arrival env) ?ss0 ?w1
        = (map Settled rs, None, w')
      \<and> list_all2 (item_done ?Q) ?ss0 rs \<and> ?I (map Settled rs) w'"
    apply (rule await_all_settles [where I = ?I and Q = ?Q])
      apply (rule nothrow)
     apply (rule TrueI)
    apply (rule step'; assumption)
    done
  then obtain rs w' where fin: "await_all batch_item_resume_plain (arrival env) ?ss0 ?w1
        = (map Settled rs, None, w')"
    and out: "list_all2 (item_done ?Q) ?ss0 rs"
    by blast
  have run: "batchDetails_plain env k b w = (respond 200 (BatchResults rs), w')"
    using ids st fin flds [symmetric]
    by (cases ids) (simp_all add: batchDetails_plain_def split_beta Let_def item_results_settled)
  have len: "length rs = length ids"
    using list_all2_lengthD [OF out] by simp
  have "batch_entry_plain env k (sort flds) w ids i (rs ! i)" if "i < length ids" for i
  proof -
    have "item_done ?Q (?ss0 ! i) (rs ! i)"
      using list_all2_nthD [OF out, of i] that by simp
    then show ?thesis
      using that by (simp add: item_done_started_plain)
  qed
  with run len show ?thesis
    by blast
qed

section \<open>Batch isolation\<close>

lemma always_answers_steady: "always_answers steady_env"
  by (simp add: always_answers_def steady_env_def steady_fetch_def r_ok_def
      field_error_response_def not_found_response_def ok_response_def)

lemma batch_request_fields: "b_fields (body_or_empty (batch_request gw ids flds)) = flds"
  by (simp add: batch_request_def body_or_empty_def)

text \<open>
  Claim C6. Let a \<^verbatim>\<open>batchDetails\<close> request pass the checks of the dispatcher and carry
  between 1 and 50 identifiers, let the provider answer every call with a response whose
  body decodes whenever the response is ok, and let the identifiers and the field list be
  strings that \<^verbatim>\<open>encodeURIComponent\<close> accepts. Then both handlers answer 200 with exactly
  one entry per identifier, in the order of the identifiers, and the \<open>i\<close>-th entry is
  fixed by the cache at the start and by the provider's answers to the \<open>i\<close>-th item's own
  calls (\<^const>\<open>batch_entry\<close>, \<^const>\<open>batch_entry_plain\<close>): a payload found in the cache is
  returned with \<^verbatim>\<open>cached: true\<close>; otherwise an ok answer gives the success entry with the
  decoded payload and \<^verbatim>\<open>cached: false\<close>, and an answer that is not ok gives the error
  entry with the status and the body of that answer (in \<^verbatim>\<open>api/places.ts\<close>, for the
  field-expansion error, the entry of the answer to the one retry). No entry depends on
  what the provider answers for another identifier, and this holds for every order in
  which the answers arrive.
\<close>

theorem batch_isolation:
  assumes "req_method req \<noteq> ''OPTIONS''" and "action_of req = ''batchDetails''"
    and "\<not> unauthorized env req" and "present (GOOGLE_PLACES_API_KEY env)"
    and "b_placeIds (body_or_empty req) = Some (IdArray ids)"
    and "1 \<le> length ids" and "length ids \<le> 50"
    and "always_answers env"
    and "k = the (GOOGLE_PLACES_API_KEY env)"
    and "flds = (case b_fields (body_or_empty req) of None \<Rightarrow> DEFAULT_FIELDS | Some f \<Rightarrow> f)"
    and "flds' = sort (case b_fields (body_or_empty req) of
                         None \<Rightarrow> DEFAULT_FIELDS_plain | Some f \<Rightarrow> f)"
  shows "((\<forall>p \<in> set ids. uri_ok (normalizeId p)) \<and> uri_ok (join '','' flds) \<longrightarrow>
            (\<exists>rs w'. handler env req w = (respond 200 (BatchResults rs), w')
               \<and> length rs = length ids
               \<and> (\<forall>i < length ids.
                     batch_entry env k flds w (map normalizeId ids) i (rs ! i))))
       \<and> ((\<forall>p \<in> set ids. uri_ok p) \<and> uri_ok (join '','' flds') \<longrightarrow>
            (\<exists>rs w'. handler_plain env req w = (respond 200 (BatchResults rs), w')
               \<and> length rs = length ids
               \<and> (\<forall>i < length ids. batch_entry_plain env k flds' w ids i (rs ! i))))"
proof (intro conjI impI)
  assume u: "(\<forall>p \<in> set ids. uri_ok (normalizeId p)) \<and> uri_ok (join '','' flds)"
  from batchDetails_entries [OF assms(8,5,6,7,10), of k w] u
    handler_routes_batch(1) [OF assms(1-4), of w] assms(9)
  show "\<exists>rs w'. handler env req w = (respond 200 (BatchResults rs), w')
               \<and> length rs = length ids
               \<and> (\<forall>i < length ids.
                     batch_entry env k flds w (map normalizeId ids) i (rs ! i))"
    by simp
next
  assume u: "(\<forall>p \<in> set ids. uri_ok p) \<and> uri_ok (join '','' flds')"
  from batchDetails_plain_entries [OF assms(8,5,6,7) refl, of k w] u
    handler_routes_batch(2) [OF assms(1-4), of w] assms(9,11)
  show "\<exists>rs w'. handler_plain env req w = (respond 200 (BatchResults rs), w')
               \<and> length rs = length ids
               \<and> (\<forall>i < length ids. batch_entry_plain env k flds' w ids i (rs ! i))"
    by simp
qed

theorem batch_isolation_witness:
  "req_method (batch_request (Some ''s3cret'') (Some (IdArray three_ids)) (Some [''id''])) \<noteq> ''OPTIONS''
   \<and> action_of (batch_request (Some ''s3cret'') (Some (IdArray three_ids)) (Some [''id''])) = ''batchDetails''
   \<and> \<not> unauthorized steady_env (batch_request (Some ''s3cret'') (Some (IdArray three_ids)) (Some [''id'']))
   \<and> present (GOOGLE_PLACES_API_KEY steady_env)
   \<and> 1 \<le> length three_ids \<and> length three_ids \<le> 50
   \<and> always_answers steady_env
   \<and> list_all uri_ok (map normalizeId three_ids) \<and> uri_ok (join '','' [''id''])
   \<and> (\<exists>rs w'. handler steady_env (batch_request (Some ''s3cret'') (Some (IdArray three_ids)) (Some [''id'']))
                   fresh_world = (respond 200 (BatchResults rs), w')
          \<and> length rs = length three_ids
          \<and> (\<forall>i < length three_ids.
                batch_entry steady_env ''gk'' [''id''] fresh_world (map normalizeId three_ids) i (rs ! i)))
   \<and> fst (handler steady_env (batch_request (Some ''s3cret'') (Some (IdArray three_ids)) (Some [''id'']))
            fresh_world)
       = respond 200 (BatchResults
           [ItemOk ''ChIJabc'' sample_place False,
            ItemError ''missing'' 404 ''Not Found'',
            ItemOk ''ChIJxyz'' sample_place False])"
proof -
  let ?req = "batch_request (Some ''s3cret'') (Some (IdArray three_ids)) (Some [''id''])"
  have m: "req_method ?req \<noteq> ''OPTIONS''"
    by (simp add: batch_request_def)
  have a: "action_of ?req = ''batchDetails''"
    by (rule batch_request_action)
  have u: "\<not> unauthorized steady_env ?req"
    by (simp add: unauthorized_def steady_env_def batch_request_def present_def)
  have g: "present (GOOGLE_PLACES_API_KEY steady_env)"
    by (simp add: steady_env_def present_def)
  have p: "b_placeIds (body_or_empty ?req) = Some (IdArray three_ids)"
    by (rule batch_request_placeIds)
  have n: "1 \<le> length three_ids" "length three_ids \<le> 50"
    by (simp_all add: three_ids_def)
  have k: "''gk'' = the (GOOGLE_PLACES_API_KEY steady_env)"
    by (simp add: steady_env_def)
  have f: "[''id''] = (case b_fields (body_or_empty ?req) of None \<Rightarrow> DEFAULT_FIELDS | Some f \<Rightarrow> f)"
    by (simp add: batch_request_fields)
  have o: "list_all uri_ok (map normalizeId three_ids)" "uri_ok (join '','' [''id''])"
    by code_simp+
  then have o': "\<forall>p \<in> set three_ids. uri_ok (normalizeId p)"
    by (simp add: list_all_iff)
  have v: "fst (handler steady_env ?req fresh_world)
       = respond 200 (BatchResults
           [ItemOk ''ChIJabc'' sample_place False,
            ItemError ''missing'' 404 ''Not Found'',
            ItemOk ''ChIJxyz'' sample_place False])"
    by code_simp
  note T = batch_isolation [OF m a u g p n always_answers_steady k f refl, of fresh_world]
  show ?thesis
    using T m a u g n always_answers_steady o o' v
    by blast
qed

text \<open>
  The claim as it is written fails when \<^verbatim>\<open>fetch\<close> itself rejects for one identifier,
  when the provider answers one identifier with a 200 whose body is not JSON, or when an
  identifier or a field is a string that \<^verbatim>\<open>encodeURIComponent\<close> rejects: the error leaves
  \<^verbatim>\<open>Promise.all\<close>, is caught by the handler, and the whole batch is answered 500 with no
  per-item entries, whatever the provider answered for the sibling (in the third case a
  404, to the one call that was issued).
\<close>

theorem batch_rejection_counterexample:
  "1 \<le> length [''ChIJabc'', ''down''] \<and> length [''ChIJabc'', ''down''] \<le> 50
   \<and> fetch sample_env [details_call ''gk'' ''ChIJabc'' [''id'']]
         (details_call ''gk'' ''down'' [''id'']) = Rejects ''connect ECONNREFUSED''
   \<and> fst (handler sample_env
          (batch_request (Some ''s3cret'') (Some (IdArray [''ChIJabc'', ''down''])) (Some [''id''])) fresh_world)
       = respond 500 (GatewayException ''connect ECONNREFUSED'')
   \<and> fst (handler_plain sample_env
          (batch_request (Some ''s3cret'') (Some (IdArray [''ChIJabc'', ''down''])) (Some [''id''])) fresh_world)
       = respond 500 (GatewayException ''connect ECONNREFUSED'')
   \<and> fetch sample_env [details_call ''gk'' ''ChIJabc'' [''id'']]
         (details_call ''gk'' ''garbled'' [''id'']) = Resolves garbled_response
   \<and> fst (handler sample_env
          (batch_request (Some ''s3cret'') (Some (IdArray [''ChIJabc'', ''garbled''])) (Some [''id''])) fresh_world)
       = respond 500 (GatewayException ''Unexpected token <'')
   \<and> fst (handler_plain sample_env
          (batch_request (Some ''s3cret'') (Some (IdArray [''ChIJabc'', ''garbled''])) (Some [''id''])) fresh_world)
       = respond 500 (GatewayException ''Unexpected token <'')
   \<and> always_answers steady_env
   \<and> encodeURIComponent lone_surrogate = Inl ''URI malformed''
   \<and> handler steady_env
        (batch_request (Some ''s3cret'') (Some (IdArray [''missing'', lone_surrogate])) (Some [''id''])) fresh_world
       = (respond 500 (GatewayException ''URI malformed''),
          fresh_world\<lparr>calls := [details_call ''gk'' ''missing'' [''id'']],
                       clock := clock fresh_world + 7\<rparr>)
   \<and> fst (handler_plain steady_env
          (batch_request (Some ''s3cret'') (Some (IdArray [''missing'', lone_surrogate])) (Some [''id''])) fresh_world)
       = respond 500 (GatewayException ''URI malformed'')
   \<and> fst (handler steady_env
          (batch_request (Some ''s3cret'') (Some (IdArray [''ChIJabc''])) (Some [lone_surrogate])) fresh_world)
       = respond 500 (GatewayException ''URI malformed'')
   \<and> fst (handler_plain steady_env
          (batch_request (Some ''s3cret'') (Some (IdArray [''ChIJabc''])) (Some [lone_surrogate])) fresh_world)
       = respond 500 (GatewayException ''URI malformed'')"
proof -
  have a: "1 \<le> length [''ChIJabc'', ''down''] \<and> length [''ChIJabc'', ''down''] \<le> 50
   \<and> fetch sample_env [details_call ''gk'' ''ChIJabc'' [''id'']]
         (details_call ''gk'' ''down'' [''id'']) = Rejects ''connect ECONNREFUSED''
   \<and> fst (handler sample_env
          (batch_request (Some ''s3cret'') (Some (IdArray [''ChIJabc'', ''down''])) (Some [''id''])) fresh_world)
       = respond 500 (GatewayException ''connect ECONNREFUSED'')
   \<and> fst (handler_plain sample_env
          (batch_request (Some ''s3cret'') (Some (IdArray [''ChIJabc'', ''down''])) (Some [''id''])) fresh_world)
       = respond 500 (GatewayException ''connect ECONNREFUSED'')
   \<and> fetch sample_env [details_call ''gk'' ''ChIJabc'' [''id'']]
         (details_call ''gk'' ''garbled'' [''id'']) = Resolves garbled_response
   \<and> fst (handler sample_env
          (batch_request (Some ''s3cret'') (Some (IdArray [''ChIJabc'', ''garbled''])) (Some [''id''])) fresh_world)
       = respond 500 (GatewayException ''Unexpected token <'')
   \<and> fst (handler_plain sample_env
          (batch_request (Some ''s3cret'') (Some (IdArray [''ChIJabc'', ''garbled''])) (Some [''id''])) fresh_world)
       = respond 500 (GatewayException ''Unexpected token <'')"
    by code_simp
  have b: "encodeURIComponent lone_surrogate = Inl ''URI malformed''
   \<and> handler steady_env
        (batch_request (Some ''s3cret'') (Some (IdArray [''missing'', lone_surrogate])) (Some [''id''])) fresh_world
       = (respond 500 (GatewayException ''URI malformed''),
          fresh_world\<lparr>calls := [details_call ''gk'' ''missing'' [''id'']],
                       clock := clock fresh_world + 7\<rparr>)
   \<and> fst (handler_plain steady_env
          (batch_request (Some ''s3cret'') (Some (IdArray [''missing'', lone_surrogate])) (Some [''id''])) fresh_world)
       = respond 500 (GatewayException ''URI malformed'')
   \<and> fst (handler steady_env
          (batch_request (Some ''s3cret'') (Some (IdArray [''ChIJabc''])) (Some [lone_surrogate])) fresh_world)
       = respond 500 (GatewayException ''URI malformed'')
   \<and> fst (handler_plain steady_env
          (batch_request (Some ''s3cret'') (Some (IdArray [''ChIJabc''])) (Some [lone_surrogate])) fresh_world)
       = respond 500 (GatewayException ''URI malformed'')"
    by code_simp
  show ?thesis
    using a always_answers_steady b by blast
qed

section \<open>What the fallback leaves in the cache\<close>



































end
